(* ===== verification/TTT_Prelude.thy ===== *)
theory TTT_Prelude
  imports Main
begin

text \<open>
  Shared vocabulary of the development: the exceptions the Python program can end with,
  the result type of fallible operations, the lemma collections the component theories
  fill and use, and the generic facts on lists and on running maxima and minima that the
  models of the loops in \<^verbatim>\<open>src/project_mini.py\<close> need.
\<close>

section \<open>Lemma collections\<close>

named_theorems board_defs \<open>unfolding rules of the board operations\<close>
named_theorems board_lit \<open>the board operations on a literal 3x3 grid\<close>
named_theorems wf_intros \<open>operations that keep a board well formed\<close>

section \<open>Exceptions as values\<close>

text \<open>
  \<^verbatim>\<open>IndexError\<close> is what numpy raises on an index outside the array,
  \<^verbatim>\<open>RecursionError\<close> what CPython raises when nested calls exceed the recursion limit,
  \<^verbatim>\<open>SystemExit\<close> what \<^verbatim>\<open>sys.exit()\<close> raises.
\<close>

datatype error = IndexError | RecursionError | SystemExit

type_synonym 'a result = "error + 'a"

definition bind_result :: "'a result \<Rightarrow> ('a \<Rightarrow> 'b result) \<Rightarrow> 'b result" where
  "bind_result m f = (case m of Inl e \<Rightarrow> Inl e | Inr x \<Rightarrow> f x)"

definition is_ok :: "'a result \<Rightarrow> bool" where
  "is_ok m = (case m of Inl e \<Rightarrow> False | Inr x \<Rightarrow> True)"

lemma bind_result_simps [simp]:
  "bind_result (Inl e) f = Inl e"
  "bind_result (Inr x) f = f x"
  by (simp_all add: bind_result_def)

lemma is_ok_simps [simp]: "is_ok (Inr x)" "\<not> is_ok (Inl e)"
  by (simp_all add: is_ok_def)

lemma is_ok_iff: "is_ok m \<longleftrightarrow> (\<exists>x. m = Inr x)"
  by (cases m) simp_all

lemma bind_result_eq_Inr_iff:
  "bind_result m f = Inr y \<longleftrightarrow> (\<exists>x. m = Inr x \<and> f x = Inr y)"
  by (cases m) simp_all

lemma bind_result_eq_Inl_iff:
  "bind_result m f = Inl e \<longleftrightarrow> m = Inl e \<or> (\<exists>x. m = Inr x \<and> f x = Inl e)"
  by (cases m) simp_all

lemma bind_result_assoc:
  "bind_result (bind_result m f) g = bind_result m (\<lambda>x. bind_result (f x) g)"
  by (cases m) simp_all

lemma bind_result_cong [fundef_cong]:
  "m = m' \<Longrightarrow> (\<And>x. m' = Inr x \<Longrightarrow> f x = f' x) \<Longrightarrow> bind_result m f = bind_result m' f'"
  by (cases m') simp_all

section \<open>Nested list update\<close>

text \<open>A grid is a list of rows; these facts are about reading and writing one entry.\<close>

lemma nth_nested_update:
  "r < length xss \<Longrightarrow> c < length (xss ! r) \<Longrightarrow>
   (xss[r := (xss ! r)[c := v]]) ! r' ! c' = (if r' = r \<and> c' = c then v else xss ! r' ! c')"
  by (cases "r' = r") (auto simp: nth_list_update)

lemma length_nested_update [simp]:
  "length (xss[r := (xss ! r)[c := v]]) = length xss"
  by simp

lemma length_nth_nested_update [simp]:
  "length ((xss[r := (xss ! r)[c := v]]) ! r') = length (xss ! r')"
  by (cases "r < length xss") (auto simp: nth_list_update list_update_beyond)

lemma nested_update_same:
  "xss ! r ! c = v \<Longrightarrow> xss[r := (xss ! r)[c := v]] = xss"
  by (metis list_update_id)

lemma nested_update_overwrite:
  "(xss[r := (xss ! r)[c := v]])[r := ((xss[r := (xss ! r)[c := v]]) ! r)[c := w]]
     = xss[r := (xss ! r)[c := w]]"
  by (cases "r < length xss") (simp_all add: list_update_beyond)

section \<open>Running maximum and minimum\<close>

text \<open>
  The search loops keep a running best score: \<open>fold max xs a\<close> is the value of
  \<^verbatim>\<open>best = max(x, best)\<close> iterated over \<open>xs\<close> from \<open>a\<close>.
\<close>

lemma fold_max_ge_init: "(a :: 'a :: linorder) \<le> fold max xs a"
  by (induction xs arbitrary: a) (auto intro: order_trans [OF max.cobounded2])

lemma fold_max_ge_elem: "x \<in> set xs \<Longrightarrow> (x :: 'a :: linorder) \<le> fold max xs a"
proof (induction xs arbitrary: a)
  case Nil
  then show ?case by simp
next
  case (Cons y ys)
  show ?case
  proof (cases "x = y")
    case True
    have "y \<le> max y a" by simp
    also have "\<dots> \<le> fold max ys (max y a)" by (rule fold_max_ge_init)
    finally show ?thesis using True by simp
  next
    case False
    with Cons show ?thesis by simp
  qed
qed

lemma fold_max_mem: "fold max xs (a :: 'a :: linorder) \<in> insert a (set xs)"
  by (induction xs arbitrary: a) (auto simp: max_def)

lemma fold_max_le_iff:
  "fold max xs (a :: 'a :: linorder) \<le> t \<longleftrightarrow> a \<le> t \<and> list_all (\<lambda>x. x \<le> t) xs"
  by (induction xs arbitrary: a) auto

lemma le_fold_max_iff:
  "t \<le> fold max xs (a :: 'a :: linorder) \<longleftrightarrow> t \<le> a \<or> list_ex (\<lambda>x. t \<le> x) xs"
  by (induction xs arbitrary: a) (auto simp: le_max_iff_disj)

lemma fold_min_le_init: "fold min xs (a :: 'a :: linorder) \<le> a"
  by (induction xs arbitrary: a) (auto intro: order_trans [OF _ min.cobounded2])

lemma fold_min_le_elem: "x \<in> set xs \<Longrightarrow> fold min xs a \<le> (x :: 'a :: linorder)"
proof (induction xs arbitrary: a)
  case Nil
  then show ?case by simp
next
  case (Cons y ys)
  show ?case
  proof (cases "x = y")
    case True
    have "fold min ys (min y a) \<le> min y a" by (rule fold_min_le_init)
    also have "\<dots> \<le> y" by simp
    finally show ?thesis using True by simp
  next
    case False
    with Cons show ?thesis by simp
  qed
qed

lemma fold_min_mem: "fold min xs (a :: 'a :: linorder) \<in> insert a (set xs)"
  by (induction xs arbitrary: a) (auto simp: min_def)

lemma le_fold_min_iff:
  "t \<le> fold min xs (a :: 'a :: linorder) \<longleftrightarrow> t \<le> a \<and> list_all (\<lambda>x. t \<le> x) xs"
  by (induction xs arbitrary: a) auto

lemma fold_min_le_iff:
  "fold min xs (a :: 'a :: linorder) \<le> t \<longleftrightarrow> a \<le> t \<or> list_ex (\<lambda>x. x \<le> t) xs"
  by (induction xs arbitrary: a) (auto simp: min_le_iff_disj)

end
