(* ===== verification/Board.thy ===== *)
theory Board
  imports TTT_Prelude
begin

text \<open>
  The board of \<^verbatim>\<open>src/project_mini.py\<close>: the global 3x3 numpy array \<^verbatim>\<open>board\<close>
  (line 36) and the functions that read and write it (lines 66 to 97 and the loop of
  \<^verbatim>\<open>reset_game\<close>, lines 171 to 173). The array is a list of rows of integers
  (\<^verbatim>\<open>0\<close> empty, \<^verbatim>\<open>1\<close> the human's O, \<^verbatim>\<open>2\<close> the computer's X; the floats numpy stores
  are exactly these integers). The global is passed explicitly: every operation takes the
  board and the writing ones return the new board. \<open>wf_board\<close> is the shape of the array,
  which item assignment cannot change. \<open>cell\<close> and \<open>set_cell\<close> are the read and the write at
  indices inside the array and are used only there; an integer index from outside goes
  through \<open>np_index\<close>, numpy's rule for such an index, which is assumed and not part of the
  source.
\<close>

section \<open>Constants and the array\<close>

definition WIDTH :: int where
  "WIDTH = 600"

definition BOARD_ROWS :: nat where
  "BOARD_ROWS = 3"

definition BOARD_COLS :: nat where
  "BOARD_COLS = 3"

definition SQUARE_SIZE :: int where
  "SQUARE_SIZE = WIDTH div int BOARD_COLS"

type_synonym board = "int list list"

text \<open>\<^verbatim>\<open>np.zeros((m, n))\<close> and the initial value of the global.\<close>

definition zeros :: "nat \<Rightarrow> nat \<Rightarrow> board" where
  "zeros m n = replicate m (replicate n 0)"

definition init_board :: board where
  "init_board = zeros BOARD_ROWS BOARD_COLS"

text \<open>The shape of the array, which numpy fixes at creation.\<close>

definition wf_board :: "board \<Rightarrow> bool" where
  "wf_board b \<longleftrightarrow> length b = BOARD_ROWS \<and> list_all (\<lambda>row. length row = BOARD_COLS) b"

text \<open>Every cell holds one of the three marks.\<close>

definition is_mark :: "int \<Rightarrow> bool" where
  "is_mark v \<longleftrightarrow> v = 0 \<or> v = 1 \<or> v = 2"

definition marks_ok :: "board \<Rightarrow> bool" where
  "marks_ok b = list_all (list_all is_mark) b"

section \<open>Reading and writing a cell\<close>

text \<open>
  \<^verbatim>\<open>board[row][col]\<close> with indices inside the array, as the loops over
  \<^verbatim>\<open>range(BOARD_ROWS)\<close> and \<^verbatim>\<open>range(BOARD_COLS)\<close> produce them.
\<close>

definition cell :: "board \<Rightarrow> nat \<Rightarrow> nat \<Rightarrow> int" where
  "cell b row col = b ! row ! col"

definition set_cell :: "board \<Rightarrow> nat \<Rightarrow> nat \<Rightarrow> int \<Rightarrow> board" where
  "set_cell b row col v = b[row := (b ! row)[col := v]]"

text \<open>
  An index that comes from outside (a mouse position) is any integer. numpy accepts
  \<open>-n \<le> i < n\<close> on an axis of size \<open>n\<close>, counting negative indices from the end, and
  raises \<^verbatim>\<open>IndexError\<close> otherwise.
\<close>

definition np_index :: "nat \<Rightarrow> int \<Rightarrow> nat result" where
  "np_index n i =
     (if 0 \<le> i \<and> i < int n then Inr (nat i)
      else if - int n \<le> i \<and> i < 0 then Inr (nat (i + int n))
      else Inl IndexError)"

definition mark_square :: "board \<Rightarrow> int \<Rightarrow> int \<Rightarrow> int \<Rightarrow> board result" where
  "mark_square b row col player =
     bind_result (np_index (length b) row) (\<lambda>r.
     bind_result (np_index (length (b ! r)) col) (\<lambda>c.
     Inr (set_cell b r c player)))"

definition available_square :: "board \<Rightarrow> int \<Rightarrow> int \<Rightarrow> bool result" where
  "available_square b row col =
     bind_result (np_index (length b) row) (\<lambda>r.
     bind_result (np_index (length (b ! r)) col) (\<lambda>c.
     Inr (cell b r c = 0)))"

section \<open>The scans over all cells\<close>

text \<open>
  The nested loops \<^verbatim>\<open>for row in range(BOARD_ROWS): for col in range(BOARD_COLS)\<close>
  visit the cells in row-major order; \<open>all_cells\<close> is that sequence.
\<close>

definition all_cells :: "(nat \<times> nat) list" where
  "all_cells = List.product [0..<BOARD_ROWS] [0..<BOARD_COLS]"

definition is_board_full :: "board \<Rightarrow> bool" where
  "is_board_full b = list_all (\<lambda>(row, col). cell b row col \<noteq> 0) all_cells"

definition check_win :: "board \<Rightarrow> int \<Rightarrow> bool" where
  "check_win b player \<longleftrightarrow>
     list_ex (\<lambda>col. cell b 0 col = player \<and> cell b 1 col = player \<and> cell b 2 col = player)
       [0..<BOARD_COLS]
   \<or> list_ex (\<lambda>row. cell b row 0 = player \<and> cell b row 1 = player \<and> cell b row 2 = player)
       [0..<BOARD_ROWS]
   \<or> (cell b 0 0 = player \<and> cell b 1 1 = player \<and> cell b 2 2 = player)
   \<or> (cell b 0 2 = player \<and> cell b 1 1 = player \<and> cell b 2 0 = player)"

text \<open>
  The eight lines \<^verbatim>\<open>check_win\<close> tests, in the order it tests them: the three columns,
  the three rows, the two diagonals.
\<close>

definition win_lines :: "(nat \<times> nat) list list" where
  "win_lines =
     map (\<lambda>col. [(0, col), (1, col), (2, col)]) [0..<BOARD_COLS]
   @ map (\<lambda>row. [(row, 0), (row, 1), (row, 2)]) [0..<BOARD_ROWS]
   @ [[(0, 0), (1, 1), (2, 2)], [(0, 2), (1, 1), (2, 0)]]"

definition line_of :: "board \<Rightarrow> int \<Rightarrow> (nat \<times> nat) list \<Rightarrow> bool" where
  "line_of b p l = list_all (\<lambda>(r, c). cell b r c = p) l"

text \<open>The loop of \<^verbatim>\<open>reset_game\<close> that writes \<^verbatim>\<open>0\<close> into every cell.\<close>

definition clear_board :: "board \<Rightarrow> board" where
  "clear_board b = fold (\<lambda>(row, col) b'. set_cell b' row col 0) all_cells b"

text \<open>The number of cells that hold a given mark.\<close>

definition count_mark :: "board \<Rightarrow> int \<Rightarrow> nat" where
  "count_mark b v = sum_list (map (\<lambda>row. count_list row v) b)"

lemmas [board_defs] =
  WIDTH_def BOARD_ROWS_def BOARD_COLS_def SQUARE_SIZE_def zeros_def init_board_def
  wf_board_def is_mark_def marks_ok_def cell_def set_cell_def all_cells_def
  is_board_full_def check_win_def clear_board_def count_mark_def win_lines_def line_of_def

section \<open>The scan order\<close>

lemma all_cells_eq:
  "all_cells = [(0,0), (0,1), (0,2), (1,0), (1,1), (1,2), (2,0), (2,1), (2,2)]"
  by (simp add: all_cells_def BOARD_ROWS_def BOARD_COLS_def upt_rec numeral_nat)

lemma distinct_all_cells: "distinct all_cells"
  by (simp add: all_cells_def distinct_product)

lemma set_all_cells: "set all_cells = {0..<BOARD_ROWS} \<times> {0..<BOARD_COLS}"
  by (simp add: all_cells_def)

lemma in_all_cells_iff: "(r, c) \<in> set all_cells \<longleftrightarrow> r < BOARD_ROWS \<and> c < BOARD_COLS"
  by (simp add: set_all_cells)

lemma index_cases:
  assumes "i < (3::nat)"
  obtains "i = 0" | "i = 1" | "i = 2"
  using assms by (cases i rule: nat.exhaust) (auto simp: less_Suc_eq numeral_nat)

section \<open>Well-formed boards are literal grids\<close>

lemma length3E:
  assumes "length xs = 3"
  obtains x y z where "xs = [x, y, z]"
  using assms by (auto simp: length_Suc_conv numeral_3_eq_3)

lemma wf_board_cases:
  assumes "wf_board b"
  obtains a0 a1 a2 b0 b1 b2 c0 c1 c2
  where "b = [[a0, a1, a2], [b0, b1, b2], [c0, c1, c2]]"
proof -
  from assms obtain x y z where b: "b = [x, y, z]"
    by (auto simp: wf_board_def BOARD_ROWS_def elim: length3E)
  with assms have "length x = 3" "length y = 3" "length z = 3"
    by (auto simp: wf_board_def BOARD_COLS_def)
  then obtain a0 a1 a2 b0 b1 b2 c0 c1 c2
    where "x = [a0, a1, a2]" "y = [b0, b1, b2]" "z = [c0, c1, c2]"
    by (elim length3E) auto
  with b that show ?thesis by blast
qed

lemma wf_board_lit [simp]: "wf_board [[a0, a1, a2], [b0, b1, b2], [c0, c1, c2]]"
  by (simp add: wf_board_def BOARD_ROWS_def BOARD_COLS_def)

lemma init_board_eq: "init_board = [[0, 0, 0], [0, 0, 0], [0, 0, 0]]"
  by (simp add: init_board_def zeros_def BOARD_ROWS_def BOARD_COLS_def numeral_3_eq_3)

lemma wf_init_board [simp, wf_intros]: "wf_board init_board"
  by (simp add: init_board_eq)

lemma marks_ok_init_board [simp]: "marks_ok init_board"
  by (simp add: init_board_eq marks_ok_def is_mark_def)

section \<open>The operations on a literal grid\<close>

lemma cell_lit [board_lit]:
  "cell [[a0, a1, a2], [b0, b1, b2], [c0, c1, c2]] 0 0 = a0"
  "cell [[a0, a1, a2], [b0, b1, b2], [c0, c1, c2]] 0 1 = a1"
  "cell [[a0, a1, a2], [b0, b1, b2], [c0, c1, c2]] 0 2 = a2"
  "cell [[a0, a1, a2], [b0, b1, b2], [c0, c1, c2]] 1 0 = b0"
  "cell [[a0, a1, a2], [b0, b1, b2], [c0, c1, c2]] 1 1 = b1"
  "cell [[a0, a1, a2], [b0, b1, b2], [c0, c1, c2]] 1 2 = b2"
  "cell [[a0, a1, a2], [b0, b1, b2], [c0, c1, c2]] 2 0 = c0"
  "cell [[a0, a1, a2], [b0, b1, b2], [c0, c1, c2]] 2 1 = c1"
  "cell [[a0, a1, a2], [b0, b1, b2], [c0, c1, c2]] 2 2 = c2"
  by (simp_all add: cell_def)

lemma set_cell_lit [board_lit]:
  "set_cell [[a0, a1, a2], [b0, b1, b2], [c0, c1, c2]] 0 0 v = [[v, a1, a2], [b0, b1, b2], [c0, c1, c2]]"
  "set_cell [[a0, a1, a2], [b0, b1, b2], [c0, c1, c2]] 0 1 v = [[a0, v, a2], [b0, b1, b2], [c0, c1, c2]]"
  "set_cell [[a0, a1, a2], [b0, b1, b2], [c0, c1, c2]] 0 2 v = [[a0, a1, v], [b0, b1, b2], [c0, c1, c2]]"
  "set_cell [[a0, a1, a2], [b0, b1, b2], [c0, c1, c2]] 1 0 v = [[a0, a1, a2], [v, b1, b2], [c0, c1, c2]]"
  "set_cell [[a0, a1, a2], [b0, b1, b2], [c0, c1, c2]] 1 1 v = [[a0, a1, a2], [b0, v, b2], [c0, c1, c2]]"
  "set_cell [[a0, a1, a2], [b0, b1, b2], [c0, c1, c2]] 1 2 v = [[a0, a1, a2], [b0, b1, v], [c0, c1, c2]]"
  "set_cell [[a0, a1, a2], [b0, b1, b2], [c0, c1, c2]] 2 0 v = [[a0, a1, a2], [b0, b1, b2], [v, c1, c2]]"
  "set_cell [[a0, a1, a2], [b0, b1, b2], [c0, c1, c2]] 2 1 v = [[a0, a1, a2], [b0, b1, b2], [c0, v, c2]]"
  "set_cell [[a0, a1, a2], [b0, b1, b2], [c0, c1, c2]] 2 2 v = [[a0, a1, a2], [b0, b1, b2], [c0, c1, v]]"
  by (simp_all add: set_cell_def)

lemma check_win_lit [board_lit]:
  "check_win [[a0, a1, a2], [b0, b1, b2], [c0, c1, c2]] p \<longleftrightarrow>
     (a0 = p \<and> b0 = p \<and> c0 = p) \<or> (a1 = p \<and> b1 = p \<and> c1 = p) \<or> (a2 = p \<and> b2 = p \<and> c2 = p)
   \<or> (a0 = p \<and> a1 = p \<and> a2 = p) \<or> (b0 = p \<and> b1 = p \<and> b2 = p) \<or> (c0 = p \<and> c1 = p \<and> c2 = p)
   \<or> (a0 = p \<and> b1 = p \<and> c2 = p) \<or> (a2 = p \<and> b1 = p \<and> c0 = p)"
  by (simp add: check_win_def cell_def BOARD_ROWS_def BOARD_COLS_def upt_rec numeral_nat)

lemma is_board_full_lit [board_lit]:
  "is_board_full [[a0, a1, a2], [b0, b1, b2], [c0, c1, c2]] \<longleftrightarrow>
     a0 \<noteq> 0 \<and> a1 \<noteq> 0 \<and> a2 \<noteq> 0 \<and> b0 \<noteq> 0 \<and> b1 \<noteq> 0 \<and> b2 \<noteq> 0 \<and> c0 \<noteq> 0 \<and> c1 \<noteq> 0 \<and> c2 \<noteq> 0"
  by (simp add: is_board_full_def all_cells_eq cell_def)

lemma clear_board_lit [board_lit]:
  "clear_board [[a0, a1, a2], [b0, b1, b2], [c0, c1, c2]] = [[0, 0, 0], [0, 0, 0], [0, 0, 0]]"
  by (simp add: clear_board_def all_cells_eq set_cell_lit del: One_nat_def)

lemmas [board_lit] = cell_lit [unfolded One_nat_def] set_cell_lit [unfolded One_nat_def]

lemma count_mark_lit [board_lit]:
  "count_mark [[a0, a1, a2], [b0, b1, b2], [c0, c1, c2]] v =
     count_list [a0, a1, a2] v + count_list [b0, b1, b2] v + count_list [c0, c1, c2] v"
  by (simp add: count_mark_def)

section \<open>Shape invariant\<close>

lemma wf_board_length: "wf_board b \<Longrightarrow> length b = BOARD_ROWS"
  by (simp add: wf_board_def)

lemma wf_board_row_length:
  "wf_board b \<Longrightarrow> r < BOARD_ROWS \<Longrightarrow> length (b ! r) = BOARD_COLS"
  by (simp add: wf_board_def list_all_length)

lemmas wf_board_shape = wf_board_length wf_board_row_length

lemma wf_set_cell [simp, wf_intros]: "wf_board b \<Longrightarrow> wf_board (set_cell b r c v)"
  by (cases "r < length b")
     (auto simp: wf_board_def set_cell_def list_all_length nth_list_update list_update_beyond)

lemma wf_clear_board [simp, wf_intros]: "wf_board b \<Longrightarrow> wf_board (clear_board b)"
  by (erule wf_board_cases) (simp add: clear_board_lit)

lemma clear_board_eq: "wf_board b \<Longrightarrow> clear_board b = init_board"
  by (erule wf_board_cases) (simp add: clear_board_lit init_board_eq)

section \<open>Reading after writing\<close>

lemma cell_set_cell:
  "wf_board b \<Longrightarrow> r < BOARD_ROWS \<Longrightarrow> c < BOARD_COLS \<Longrightarrow>
   cell (set_cell b r c v) r' c' = (if r' = r \<and> c' = c then v else cell b r' c')"
  by (simp add: cell_def set_cell_def nth_nested_update wf_board_shape)

lemma cell_set_cell_same [simp]:
  "wf_board b \<Longrightarrow> r < BOARD_ROWS \<Longrightarrow> c < BOARD_COLS \<Longrightarrow> cell (set_cell b r c v) r c = v"
  by (simp add: cell_set_cell)

lemma set_cell_cell [simp]: "set_cell b r c (cell b r c) = b"
  by (simp add: set_cell_def cell_def)

lemma set_cell_set_cell [simp]: "set_cell (set_cell b r c v) r c w = set_cell b r c w"
  unfolding set_cell_def by (rule nested_update_overwrite)

lemma cell_init_board [simp]:
  "r < BOARD_ROWS \<Longrightarrow> c < BOARD_COLS \<Longrightarrow> cell init_board r c = 0"
  by (simp add: cell_def init_board_def zeros_def)

section \<open>Indices from outside\<close>

lemma np_index_ok_iff: "is_ok (np_index n i) \<longleftrightarrow> - int n \<le> i \<and> i < int n"
  by (auto simp: np_index_def)

lemma np_index_Inr_less: "np_index n i = Inr k \<Longrightarrow> k < n"
  by (auto simp: np_index_def split: if_splits)

lemma np_index_nat [simp]: "k < n \<Longrightarrow> np_index n (int k) = Inr k"
  by (simp add: np_index_def)

lemma np_index_neg: "0 < k \<Longrightarrow> k \<le> n \<Longrightarrow> np_index n (- int k) = Inr (n - k)"
  by (auto simp: np_index_def nat_diff_distrib' of_nat_diff)

lemma np_index_mod:
  assumes "- int n \<le> i" "i < int n"
  shows "np_index n i = Inr (nat (i mod int n))"
proof (cases "0 \<le> i")
  case True
  with assms show ?thesis by (simp add: np_index_def)
next
  case False
  from False assms have "(i + int n) mod int n = i + int n"
    by (intro mod_pos_pos_trivial) simp_all
  then have "i mod int n = i + int n" by simp
  with False assms show ?thesis by (simp add: np_index_def)
qed

lemma np_index_out: "i < - int n \<or> int n \<le> i \<Longrightarrow> np_index n i = Inl IndexError"
  by (auto simp: np_index_def)

lemma np_index_Inl_iff: "np_index n i = Inl e \<longleftrightarrow> e = IndexError \<and> (i < - int n \<or> int n \<le> i)"
  by (auto simp: np_index_def)

lemma mark_square_nat [simp]:
  "wf_board b \<Longrightarrow> r < BOARD_ROWS \<Longrightarrow> c < BOARD_COLS \<Longrightarrow>
   mark_square b (int r) (int c) p = Inr (set_cell b r c p)"
  by (simp add: mark_square_def wf_board_shape)

lemma available_square_nat [simp]:
  "wf_board b \<Longrightarrow> r < BOARD_ROWS \<Longrightarrow> c < BOARD_COLS \<Longrightarrow>
   available_square b (int r) (int c) = Inr (cell b r c = 0)"
  by (simp add: available_square_def wf_board_shape)

lemma mark_square_wf:
  assumes "wf_board b"
  shows "mark_square b row col p =
    bind_result (np_index BOARD_ROWS row) (\<lambda>r.
    bind_result (np_index BOARD_COLS col) (\<lambda>c. Inr (set_cell b r c p)))"
proof (cases "np_index BOARD_ROWS row")
  case (Inl e)
  with assms show ?thesis by (simp add: mark_square_def wf_board_length)
next
  case (Inr r)
  then have "r < BOARD_ROWS" by (rule np_index_Inr_less)
  with assms Inr show ?thesis by (simp add: mark_square_def wf_board_shape)
qed

lemma available_square_wf:
  assumes "wf_board b"
  shows "available_square b row col =
    bind_result (np_index BOARD_ROWS row) (\<lambda>r.
    bind_result (np_index BOARD_COLS col) (\<lambda>c. Inr (cell b r c = 0)))"
proof (cases "np_index BOARD_ROWS row")
  case (Inl e)
  with assms show ?thesis by (simp add: available_square_def wf_board_length)
next
  case (Inr r)
  then have "r < BOARD_ROWS" by (rule np_index_Inr_less)
  with assms Inr show ?thesis by (simp add: available_square_def wf_board_shape)
qed

lemma mark_square_Inr_iff:
  assumes "wf_board b"
  shows "mark_square b row col p = Inr b' \<longleftrightarrow>
    (\<exists>r c. np_index BOARD_ROWS row = Inr r \<and> np_index BOARD_COLS col = Inr c
       \<and> b' = set_cell b r c p)"
  by (auto simp: mark_square_wf [OF assms] bind_result_eq_Inr_iff)

lemma available_square_Inr_iff:
  assumes "wf_board b"
  shows "available_square b row col = Inr a \<longleftrightarrow>
    (\<exists>r c. np_index BOARD_ROWS row = Inr r \<and> np_index BOARD_COLS col = Inr c
       \<and> a = (cell b r c = 0))"
  by (auto simp: available_square_wf [OF assms] bind_result_eq_Inr_iff)

lemma wf_mark_square: "wf_board b \<Longrightarrow> mark_square b row col p = Inr b' \<Longrightarrow> wf_board b'"
  by (auto simp: mark_square_Inr_iff)

section \<open>Fullness and counting\<close>

lemma count_mark_set_cell:
  assumes "wf_board b" "r < BOARD_ROWS" "c < BOARD_COLS"
  shows "count_mark (set_cell b r c v) w + (if cell b r c = w then 1 else 0)
       = count_mark b w + (if v = w then 1 else 0)"
proof -
  from assms(1) obtain a0 a1 a2 b0 b1 b2 c0 c1 c2
    where b: "b = [[a0, a1, a2], [b0, b1, b2], [c0, c1, c2]]" by (rule wf_board_cases)
  from assms(2,3) have "r < 3" "c < 3" by (simp_all add: BOARD_ROWS_def BOARD_COLS_def)
  then show ?thesis unfolding b
    by (elim index_cases; simp add: board_lit)
qed

lemma is_board_full_iff_count: "wf_board b \<Longrightarrow> is_board_full b \<longleftrightarrow> count_mark b 0 = 0"
  by (erule wf_board_cases) (auto simp: board_lit)

lemma is_board_full_iff_cells:
  "is_board_full b \<longleftrightarrow> (\<forall>r < BOARD_ROWS. \<forall>c < BOARD_COLS. cell b r c \<noteq> 0)"
  by (auto simp: is_board_full_def list_all_iff set_all_cells)

lemma count_mark_le: "wf_board b \<Longrightarrow> count_mark b v \<le> 9"
  by (erule wf_board_cases) (simp add: board_lit)

lemma count_mark_init_board [simp]: "count_mark init_board v = (if v = 0 then 9 else 0)"
  by (simp add: init_board_eq board_lit)

section \<open>Winning lines under a write\<close>

lemma check_win_iff_lines: "check_win b p \<longleftrightarrow> list_ex (line_of b p) win_lines"
  by (simp add: check_win_def win_lines_def line_of_def BOARD_ROWS_def BOARD_COLS_def
        upt_rec numeral_nat disj_ac)

lemma win_lines_in_range:
  "l \<in> set win_lines \<Longrightarrow> (r, c) \<in> set l \<Longrightarrow> r < BOARD_ROWS \<and> c < BOARD_COLS"
  by (auto simp: win_lines_def BOARD_ROWS_def BOARD_COLS_def)

lemma length_win_lines: "length win_lines = 8"
  by (simp add: win_lines_def BOARD_ROWS_def BOARD_COLS_def)

text \<open>Writing a mark cannot complete a line of another mark, and it cannot break a
  line of a mark the written cell did not hold.\<close>

lemma line_of_set_cell_other:
  assumes "wf_board b" "r < BOARD_ROWS" "c < BOARD_COLS" "v \<noteq> p"
    and "line_of (set_cell b r c v) p l"
  shows "line_of b p l"
  unfolding line_of_def list_all_iff
proof clarify
  fix r' c' assume rc: "(r', c') \<in> set l"
  with assms(5) have p: "cell (set_cell b r c v) r' c' = p"
    by (auto simp: line_of_def list_all_iff)
  with assms(1-4) have "\<not> (r' = r \<and> c' = c)" by (auto simp: cell_set_cell)
  with p assms(1-3) show "cell b r' c' = p" by (auto simp: cell_set_cell)
qed

lemma line_of_set_cell_keeps:
  assumes "wf_board b" "r < BOARD_ROWS" "c < BOARD_COLS" "cell b r c \<noteq> p"
    and "line_of b p l"
  shows "line_of (set_cell b r c v) p l"
  unfolding line_of_def list_all_iff
proof clarify
  fix r' c' assume rc: "(r', c') \<in> set l"
  with assms(5) have p: "cell b r' c' = p"
    by (auto simp: line_of_def list_all_iff)
  with assms(4) have "\<not> (r' = r \<and> c' = c)" by auto
  with p assms(1-3) show "cell (set_cell b r c v) r' c' = p" by (auto simp: cell_set_cell)
qed

lemma check_win_set_cell_other:
  assumes "wf_board b" "r < BOARD_ROWS" "c < BOARD_COLS" "v \<noteq> p"
    and "check_win (set_cell b r c v) p"
  shows "check_win b p"
  using assms by (auto simp: check_win_iff_lines list_ex_iff intro: line_of_set_cell_other)

lemma check_win_set_cell_keeps:
  assumes "wf_board b" "r < BOARD_ROWS" "c < BOARD_COLS" "cell b r c \<noteq> p"
    and "check_win b p"
  shows "check_win (set_cell b r c v) p"
  using assms by (auto simp: check_win_iff_lines list_ex_iff intro: line_of_set_cell_keeps)

lemma check_win_set_cell_iff:
  assumes "wf_board b" "r < BOARD_ROWS" "c < BOARD_COLS" "cell b r c \<noteq> p" "v \<noteq> p"
  shows "check_win (set_cell b r c v) p \<longleftrightarrow> check_win b p"
  using assms by (blast intro: check_win_set_cell_other check_win_set_cell_keeps)

lemma not_check_win_init_board [simp]: "p \<noteq> 0 \<Longrightarrow> \<not> check_win init_board p"
  by (simp add: init_board_eq board_lit)

lemma not_is_board_full_init_board [simp]: "\<not> is_board_full init_board"
  by (simp add: init_board_eq board_lit)

section \<open>Marks\<close>

lemma marks_ok_iff_cells:
  "wf_board b \<Longrightarrow>
   marks_ok b \<longleftrightarrow> (\<forall>r < BOARD_ROWS. \<forall>c < BOARD_COLS. is_mark (cell b r c))"
  by (simp add: marks_ok_def cell_def list_all_length wf_board_shape)

lemma marks_ok_set_cell:
  assumes "wf_board b" "marks_ok b" "is_mark v" "r < BOARD_ROWS" "c < BOARD_COLS"
  shows "marks_ok (set_cell b r c v)"
  using assms by (simp add: marks_ok_iff_cells cell_set_cell)

lemma marks_ok_cell:
  "wf_board b \<Longrightarrow> marks_ok b \<Longrightarrow> r < BOARD_ROWS \<Longrightarrow> c < BOARD_COLS \<Longrightarrow> is_mark (cell b r c)"
  by (simp add: marks_ok_iff_cells)

section \<open>The board component's contract\<close>

text \<open>C14: on a 3x3 board \<^verbatim>\<open>mark_square\<close> succeeds exactly for row and column in
  \<open>-3 \<le> i < 3\<close>, writes the cell numpy's index rule selects (negative indices count from
  the end) and raises \<^verbatim>\<open>IndexError\<close> for every other index.\<close>

theorem mark_square_result:
  assumes "wf_board b"
  shows "mark_square b row col p =
    (if - 3 \<le> row \<and> row < 3 \<and> - 3 \<le> col \<and> col < 3
     then Inr (set_cell b (nat (row mod 3)) (nat (col mod 3)) p)
     else Inl IndexError)"
proof (cases "- 3 \<le> row \<and> row < 3")
  case row: True
  show ?thesis
  proof (cases "- 3 \<le> col \<and> col < 3")
    case True
    with row assms show ?thesis
      by (simp add: mark_square_wf np_index_mod BOARD_ROWS_def BOARD_COLS_def)
  next
    case False
    with row assms show ?thesis
      by (auto simp: mark_square_wf np_index_mod np_index_out BOARD_ROWS_def BOARD_COLS_def)
  qed
next
  case False
  with assms show ?thesis
    by (auto simp: mark_square_wf np_index_out BOARD_ROWS_def)
qed

theorem mark_square_result_witness:
  "wf_board init_board
   \<and> mark_square init_board (- 1) 2 1 = Inr [[0, 0, 0], [0, 0, 0], [0, 0, 1]]
   \<and> mark_square init_board 3 0 1 = Inl IndexError"
  using mark_square_result [of init_board "- 1" 2 1] mark_square_result [of init_board 3 0 1]
  by (simp add: init_board_eq board_lit)

end
