(* ===== verification/Score.thy ===== *)
theory Score
  imports TTT_Prelude
begin

text \<open>
  The scores of the search in \<^verbatim>\<open>src/project_mini.py\<close>: \<^verbatim>\<open>minimax\<close> returns the
  integers \<^verbatim>\<open>1\<close>, \<^verbatim>\<open>-1\<close> and \<^verbatim>\<open>0\<close>, and its loops and the loop of
  \<^verbatim>\<open>best_move\<close> start their running best score at \<^verbatim>\<open>-np.inf\<close> or
  \<^verbatim>\<open>np.inf\<close>. Python compares and combines these with \<^verbatim>\<open><\<close>, \<^verbatim>\<open>max\<close> and
  \<^verbatim>\<open>min\<close>; the model is the integers extended by the two infinities, made an
  instance of \<open>linorder\<close> so that the library's \<open>max\<close> and \<open>min\<close> are Python's.
\<close>

datatype score = NegInf | Fin int | PosInf

instantiation score :: linorder
begin

fun less_eq_score :: "score \<Rightarrow> score \<Rightarrow> bool" where
  "less_eq_score NegInf y = True"
| "less_eq_score (Fin a) NegInf = False"
| "less_eq_score (Fin a) (Fin b) = (a \<le> b)"
| "less_eq_score (Fin a) PosInf = True"
| "less_eq_score PosInf NegInf = False"
| "less_eq_score PosInf (Fin b) = False"
| "less_eq_score PosInf PosInf = True"

definition less_score :: "score \<Rightarrow> score \<Rightarrow> bool" where
  "less_score x y \<longleftrightarrow> x \<le> y \<and> \<not> y \<le> x"

instance
proof
  fix x y z :: score
  show "x < y \<longleftrightarrow> x \<le> y \<and> \<not> y \<le> x"
    by (simp add: less_score_def)
  show "x \<le> x"
    by (cases x) simp_all
  show "x \<le> y \<Longrightarrow> y \<le> z \<Longrightarrow> x \<le> z"
    by (cases x; cases y; cases z) simp_all
  show "x \<le> y \<Longrightarrow> y \<le> x \<Longrightarrow> x = y"
    by (cases x; cases y) simp_all
  show "x \<le> y \<or> y \<le> x"
    by (cases x; cases y) auto
qed

end

section \<open>Comparison on the constructors\<close>

lemma less_score_simps [simp]:
  "\<not> x < NegInf"
  "NegInf < Fin a"
  "NegInf < PosInf"
  "Fin a < Fin b \<longleftrightarrow> a < b"
  "Fin a < PosInf"
  "\<not> PosInf < y"
  by (cases x; cases y; auto simp: less_score_def)+

lemma score_le_NegInf_iff [simp]: "x \<le> NegInf \<longleftrightarrow> x = NegInf"
  by (cases x) simp_all

lemma score_PosInf_le_iff [simp]: "PosInf \<le> x \<longleftrightarrow> x = PosInf"
  by (cases x) simp_all

lemma score_le_PosInf [simp]: "x \<le> PosInf"
  by (cases x) simp_all

lemma max_score_simps [simp]:
  "max NegInf x = x"
  "max x NegInf = x"
  "max (Fin a) (Fin b) = Fin (max a b)"
  "max PosInf x = PosInf"
  "max x PosInf = PosInf"
  by (cases x; simp add: max_def)+

lemma min_score_simps [simp]:
  "min NegInf x = NegInf"
  "min x NegInf = NegInf"
  "min (Fin a) (Fin b) = Fin (min a b)"
  "min PosInf x = x"
  "min x PosInf = x"
  by (cases x; simp add: min_def)+

section \<open>Finite scores\<close>

text \<open>\<open>outcome_score\<close> holds of the three scores a finished game can have.\<close>

definition is_fin :: "score \<Rightarrow> bool" where
  "is_fin x = (case x of Fin a \<Rightarrow> True | _ \<Rightarrow> False)"

definition outcome_score :: "score \<Rightarrow> bool" where
  "outcome_score x \<longleftrightarrow> x = Fin (- 1) \<or> x = Fin 0 \<or> x = Fin 1"

lemma is_fin_simps [simp]: "is_fin (Fin a)" "\<not> is_fin NegInf" "\<not> is_fin PosInf"
  by (simp_all add: is_fin_def)

lemma outcome_score_simps [simp]:
  "outcome_score (Fin a) \<longleftrightarrow> a = - 1 \<or> a = 0 \<or> a = 1"
  "\<not> outcome_score NegInf" "\<not> outcome_score PosInf"
  by (auto simp: outcome_score_def)

lemma outcome_score_is_fin: "outcome_score x \<Longrightarrow> is_fin x"
  by (cases x) simp_all

lemma outcome_score_bounds: "outcome_score x \<Longrightarrow> Fin (- 1) \<le> x \<and> x \<le> Fin 1"
  by (cases x) auto

lemma outcome_score_max: "outcome_score x \<Longrightarrow> outcome_score y \<Longrightarrow> outcome_score (max x y)"
  by (auto simp: max_def)

lemma outcome_score_min: "outcome_score x \<Longrightarrow> outcome_score y \<Longrightarrow> outcome_score (min x y)"
  by (auto simp: min_def)

lemma outcome_score_fold_max:
  assumes "list_all outcome_score xs" and "xs \<noteq> []"
  shows "outcome_score (fold max xs NegInf)"
proof -
  from assms(2) obtain x where x: "x \<in> set xs" by (cases xs) auto
  with assms(1) have "Fin (- 1) \<le> x"
    by (auto simp: list_all_iff dest: outcome_score_bounds)
  also from x have "x \<le> fold max xs NegInf" by (rule fold_max_ge_elem)
  finally have "fold max xs NegInf \<noteq> NegInf" by auto
  with fold_max_mem [of xs NegInf] assms(1) show ?thesis
    by (auto simp: list_all_iff)
qed

lemma outcome_score_fold_min:
  assumes "list_all outcome_score xs" and "xs \<noteq> []"
  shows "outcome_score (fold min xs PosInf)"
proof -
  from assms(2) obtain x where x: "x \<in> set xs" by (cases xs) auto
  from x have "fold min xs PosInf \<le> x" by (rule fold_min_le_elem)
  also from x assms(1) have "x \<le> Fin 1"
    by (auto simp: list_all_iff dest: outcome_score_bounds)
  finally have "fold min xs PosInf \<noteq> PosInf" by auto
  with fold_min_mem [of xs PosInf] assms(1) show ?thesis
    by (auto simp: list_all_iff)
qed

end
