(* ===== verification/Minimax.thy ===== *)
theory Minimax
  imports Board Score
begin

text \<open>
  The search of \<^verbatim>\<open>src/project_mini.py\<close>, lines 99 to 127. \<^verbatim>\<open>minimax\<close> works on the one
  shared array: it writes a mark, calls itself, and writes \<^verbatim>\<open>0\<close> back. The model
  threads the board through in that order and returns it with the score, so that what the
  code leaves in the array is part of the result. A call budget \<open>n\<close> bounds the depth of
  nested calls; running out of it is \<^verbatim>\<open>RecursionError\<close>, the exception CPython raises
  when its recursion limit is hit. \<open>minimax_value\<close> is the specification: the value of a
  position under best play, defined on the positions alone.
\<close>

section \<open>The code\<close>

fun minimax :: "nat \<Rightarrow> board \<Rightarrow> int \<Rightarrow> bool \<Rightarrow> (score \<times> board) result"
  and minimax_max :: "nat \<Rightarrow> (nat \<times> nat) list \<Rightarrow> board \<Rightarrow> int \<Rightarrow> score \<Rightarrow> (score \<times> board) result"
  and minimax_min :: "nat \<Rightarrow> (nat \<times> nat) list \<Rightarrow> board \<Rightarrow> int \<Rightarrow> score \<Rightarrow> (score \<times> board) result"
where
  "minimax 0 b depth is_maximizing = Inl RecursionError"
| "minimax (Suc n) b depth is_maximizing =
     (if check_win b 2 then Inr (Fin 1, b)
      else if check_win b 1 then Inr (Fin (- 1), b)
      else if is_board_full b then Inr (Fin 0, b)
      else if is_maximizing then minimax_max n all_cells b depth NegInf
      else minimax_min n all_cells b depth PosInf)"
| "minimax_max n [] b depth best_score = Inr (best_score, b)"
| "minimax_max n ((row, col) # cells) b depth best_score =
     (if cell b row col = 0 then
        bind_result (minimax n (set_cell b row col 2) (depth + 1) False) (\<lambda>(score, b').
        minimax_max n cells (set_cell b' row col 0) depth (max score best_score))
      else minimax_max n cells b depth best_score)"
| "minimax_min n [] b depth best_score = Inr (best_score, b)"
| "minimax_min n ((row, col) # cells) b depth best_score =
     (if cell b row col = 0 then
        bind_result (minimax n (set_cell b row col 1) (depth + 1) True) (\<lambda>(score, b').
        minimax_min n cells (set_cell b' row col 0) depth (min score best_score))
      else minimax_min n cells b depth best_score)"

section \<open>The specification\<close>

text \<open>The empty cells of the array, in scan order, and their number.\<close>

definition is_empty :: "board \<Rightarrow> nat \<times> nat \<Rightarrow> bool" where
  "is_empty b = (\<lambda>(r, c). r < length b \<and> c < length (b ! r) \<and> cell b r c = 0)"

definition empty_cells :: "board \<Rightarrow> (nat \<times> nat) list" where
  "empty_cells b = filter (is_empty b) all_cells"

definition num_empty :: "board \<Rightarrow> nat" where
  "num_empty b = length (empty_cells b)"

lemma is_empty_set_cell:
  assumes "is_empty b (r, c)" "v \<noteq> 0"
  shows "is_empty (set_cell b r c v) x \<longleftrightarrow> is_empty b x \<and> x \<noteq> (r, c)"
  using assms
  by (cases x)
     (auto simp: is_empty_def cell_def set_cell_def nth_nested_update nth_list_update
        split: if_splits)

lemma empty_cells_set_cell:
  assumes "is_empty b (r, c)" "v \<noteq> 0"
  shows "empty_cells (set_cell b r c v) = removeAll (r, c) (empty_cells b)"
  by (auto simp: empty_cells_def is_empty_set_cell [OF assms] removeAll_filter_not_eq
        intro: filter_cong)

lemma num_empty_set_cell:
  assumes "(r, c) \<in> set (empty_cells b)" "v \<noteq> 0"
  shows "num_empty (set_cell b r c v) < num_empty b"
proof -
  from assms(1) have "is_empty b (r, c)" by (simp add: empty_cells_def)
  then have "empty_cells (set_cell b r c v) = removeAll (r, c) (empty_cells b)"
    using assms(2) by (rule empty_cells_set_cell)
  with assms(1) show ?thesis by (simp add: num_empty_def length_removeAll_less)
qed

function minimax_value :: "board \<Rightarrow> bool \<Rightarrow> score" where
  "minimax_value b is_maximizing =
     (if check_win b 2 then Fin 1
      else if check_win b 1 then Fin (- 1)
      else if is_board_full b then Fin 0
      else if is_maximizing then
        fold max (map (\<lambda>(row, col). minimax_value (set_cell b row col 2) False) (empty_cells b))
          NegInf
      else
        fold min (map (\<lambda>(row, col). minimax_value (set_cell b row col 1) True) (empty_cells b))
          PosInf)"
  by pat_completeness auto
termination
  by (relation "measure (\<lambda>(b, m). num_empty b)") (auto intro: num_empty_set_cell)

declare minimax_value.simps [simp del]

section \<open>Empty cells of a well-formed board\<close>

lemma is_empty_wf:
  "wf_board b \<Longrightarrow> (r, c) \<in> set all_cells \<Longrightarrow> is_empty b (r, c) \<longleftrightarrow> cell b r c = 0"
  by (simp add: is_empty_def in_all_cells_iff wf_board_shape)

lemma filter_is_empty_wf:
  "wf_board b \<Longrightarrow> set cells \<subseteq> set all_cells \<Longrightarrow>
   filter (is_empty b) cells = filter (\<lambda>(r, c). cell b r c = 0) cells"
  by (rule filter_cong) (auto simp: is_empty_wf)

lemma empty_cells_in_range:
  "(r, c) \<in> set (empty_cells b) \<Longrightarrow> r < BOARD_ROWS \<and> c < BOARD_COLS"
  by (simp add: empty_cells_def in_all_cells_iff)

lemma empty_cells_cell: "(r, c) \<in> set (empty_cells b) \<Longrightarrow> cell b r c = 0"
  by (simp add: empty_cells_def is_empty_def)

lemma in_empty_cells_iff:
  "wf_board b \<Longrightarrow>
   (r, c) \<in> set (empty_cells b) \<longleftrightarrow> r < BOARD_ROWS \<and> c < BOARD_COLS \<and> cell b r c = 0"
  by (auto simp: empty_cells_def in_all_cells_iff is_empty_wf)

lemma is_board_full_iff_empty_cells:
  "wf_board b \<Longrightarrow> is_board_full b \<longleftrightarrow> empty_cells b = []"
  by (auto simp: is_board_full_def empty_cells_def filter_empty_conv list_all_iff is_empty_wf)

lemma is_board_full_iff_num_empty: "wf_board b \<Longrightarrow> is_board_full b \<longleftrightarrow> num_empty b = 0"
  by (simp add: num_empty_def is_board_full_iff_empty_cells)

lemma num_empty_set_cell_wf:
  assumes "wf_board b" "r < BOARD_ROWS" "c < BOARD_COLS" "cell b r c = 0" "v \<noteq> 0"
  shows "Suc (num_empty (set_cell b r c v)) = num_empty b"
proof -
  from assms have mem: "(r, c) \<in> set (empty_cells b)" by (simp add: in_empty_cells_iff)
  then have "is_empty b (r, c)" by (simp add: empty_cells_def)
  then have "empty_cells (set_cell b r c v) = removeAll (r, c) (empty_cells b)"
    using assms(5) by (rule empty_cells_set_cell)
  moreover have "distinct (empty_cells b)"
    by (simp add: empty_cells_def distinct_all_cells)
  ultimately show ?thesis using mem
    by (simp add: num_empty_def distinct_remove1_removeAll [symmetric] length_remove1)
       (cases "empty_cells b"; simp)
qed

lemma num_empty_le: "num_empty b \<le> 9"
  unfolding num_empty_def empty_cells_def
  by (rule order_trans [OF length_filter_le]) (simp add: all_cells_eq)

lemma num_empty_init_board [simp]: "num_empty init_board = 9"
  by (simp add: num_empty_def empty_cells_def is_empty_def all_cells_eq init_board_eq cell_def)

section \<open>Retracting a placed mark\<close>

lemma set_cell_same: "cell b r c = v \<Longrightarrow> set_cell b r c v = b"
  by (metis set_cell_cell)

lemma retract_mark: "cell b r c = 0 \<Longrightarrow> set_cell (set_cell b r c v) r c 0 = b"
  by (simp add: set_cell_same)

section \<open>The specification at a position that is not terminal\<close>

definition terminal :: "board \<Rightarrow> bool" where
  "terminal b \<longleftrightarrow> check_win b 2 \<or> check_win b 1 \<or> is_board_full b"

definition children :: "board \<Rightarrow> int \<Rightarrow> board list" where
  "children b player = map (\<lambda>(row, col). set_cell b row col player) (empty_cells b)"

lemma minimax_value_terminal:
  "check_win b 2 \<Longrightarrow> minimax_value b m = Fin 1"
  "\<not> check_win b 2 \<Longrightarrow> check_win b 1 \<Longrightarrow> minimax_value b m = Fin (- 1)"
  "\<not> check_win b 2 \<Longrightarrow> \<not> check_win b 1 \<Longrightarrow> is_board_full b \<Longrightarrow> minimax_value b m = Fin 0"
  by (simp_all add: minimax_value.simps)

lemma minimax_value_max:
  "\<not> terminal b \<Longrightarrow>
   minimax_value b True = fold max (map (\<lambda>b'. minimax_value b' False) (children b 2)) NegInf"
  by (subst minimax_value.simps) (simp add: terminal_def children_def comp_def case_prod_unfold)

lemma minimax_value_min:
  "\<not> terminal b \<Longrightarrow>
   minimax_value b False = fold min (map (\<lambda>b'. minimax_value b' True) (children b 1)) PosInf"
  by (subst minimax_value.simps) (simp add: terminal_def children_def comp_def case_prod_unfold)

lemma children_nonempty: "wf_board b \<Longrightarrow> \<not> terminal b \<Longrightarrow> children b p \<noteq> []"
  by (simp add: terminal_def children_def is_board_full_iff_empty_cells)

lemma in_children_iff:
  "wf_board b \<Longrightarrow>
   b' \<in> set (children b p) \<longleftrightarrow>
     (\<exists>r c. r < BOARD_ROWS \<and> c < BOARD_COLS \<and> cell b r c = 0 \<and> b' = set_cell b r c p)"
proof -
  assume wf: "wf_board b"
  have "b' \<in> set (children b p) \<longleftrightarrow> (\<exists>(r, c) \<in> set (empty_cells b). b' = set_cell b r c p)"
    by (auto simp: children_def)
  also have "\<dots> \<longleftrightarrow>
      (\<exists>r c. r < BOARD_ROWS \<and> c < BOARD_COLS \<and> cell b r c = 0 \<and> b' = set_cell b r c p)"
    using wf by (auto simp: in_empty_cells_iff; blast)
  finally show ?thesis .
qed

lemma wf_children: "wf_board b \<Longrightarrow> b' \<in> set (children b p) \<Longrightarrow> wf_board b'"
  by (auto simp: in_children_iff)

lemma num_empty_children:
  "wf_board b \<Longrightarrow> p \<noteq> 0 \<Longrightarrow> b' \<in> set (children b p) \<Longrightarrow> Suc (num_empty b') = num_empty b"
  by (auto simp: in_children_iff num_empty_set_cell_wf)

text \<open>Best play: the mover gets the best child, and no child is better for the mover.\<close>

lemma minimax_value_max_ge:
  "\<not> terminal b \<Longrightarrow> b' \<in> set (children b 2) \<Longrightarrow> minimax_value b' False \<le> minimax_value b True"
  by (simp add: minimax_value_max fold_max_ge_elem)

lemma minimax_value_min_le:
  "\<not> terminal b \<Longrightarrow> b' \<in> set (children b 1) \<Longrightarrow> minimax_value b False \<le> minimax_value b' True"
  by (simp add: minimax_value_min fold_min_le_elem)

lemma minimax_value_max_attained:
  assumes "wf_board b" "\<not> terminal b"
  shows "\<exists>b' \<in> set (children b 2). minimax_value b True = minimax_value b' False"
proof -
  let ?vs = "map (\<lambda>b'. minimax_value b' False) (children b 2)"
  from assms obtain b0 where b0: "b0 \<in> set (children b 2)"
    using children_nonempty [of b 2] by (cases "children b 2") auto
  have "fold max ?vs NegInf \<in> insert NegInf (set ?vs)" by (rule fold_max_mem)
  moreover have "minimax_value b0 False \<le> fold max ?vs NegInf"
    using b0 by (intro fold_max_ge_elem) simp
  ultimately have "fold max ?vs NegInf \<in> set ?vs"
    using b0 by (cases "fold max ?vs NegInf = NegInf") (auto simp: image_iff intro: bexI [of _ b0])
  with assms(2) show ?thesis by (auto simp: minimax_value_max)
qed

lemma minimax_value_min_attained:
  assumes "wf_board b" "\<not> terminal b"
  shows "\<exists>b' \<in> set (children b 1). minimax_value b False = minimax_value b' True"
proof -
  let ?vs = "map (\<lambda>b'. minimax_value b' True) (children b 1)"
  from assms obtain b0 where b0: "b0 \<in> set (children b 1)"
    using children_nonempty [of b 1] by (cases "children b 1") auto
  have "fold min ?vs PosInf \<in> insert PosInf (set ?vs)" by (rule fold_min_mem)
  moreover have "fold min ?vs PosInf \<le> minimax_value b0 True"
    using b0 by (intro fold_min_le_elem) simp
  ultimately have "fold min ?vs PosInf \<in> set ?vs"
    using b0 by (cases "fold min ?vs PosInf = PosInf") (auto simp: image_iff intro: bexI [of _ b0])
  with assms(2) show ?thesis by (auto simp: minimax_value_min)
qed

text \<open>The value of every well-formed position is one of the three outcomes.\<close>

lemma outcome_minimax_value: "wf_board b \<Longrightarrow> outcome_score (minimax_value b m)"
proof (induction "num_empty b" arbitrary: b m rule: less_induct)
  case less
  show ?case
  proof (cases "terminal b")
    case True
    then show ?thesis
      by (cases "check_win b 2"; cases "check_win b 1")
         (simp_all add: terminal_def minimax_value_terminal)
  next
    case False
    have kids: "outcome_score (minimax_value b' m')" if "b' \<in> set (children b p)" "p \<noteq> 0"
      for b' p m'
      using that less.prems num_empty_children [of b p b'] wf_children [of b b' p]
      by (intro less.hyps) auto
    show ?thesis
    proof (cases m)
      case True
      with False less.prems kids [of _ 2] show ?thesis
        by (auto simp: minimax_value_max list_all_iff children_nonempty
              intro!: outcome_score_fold_max)
    next
      case m: False
      with False less.prems kids [of _ 1] show ?thesis
        by (auto simp: minimax_value_min list_all_iff children_nonempty
              intro!: outcome_score_fold_min)
    qed
  qed
qed

section \<open>The code computes the specification and restores the board\<close>

text \<open>The loops, given that the calls they make are right.\<close>

lemma minimax_max_correct:
  assumes calls: "\<And>b' d' m'. wf_board b' \<Longrightarrow> num_empty b' < n \<Longrightarrow>
      minimax n b' d' m' = Inr (minimax_value b' m', b')"
    and "wf_board b" "num_empty b \<le> n" "set cells \<subseteq> set all_cells"
  shows "minimax_max n cells b depth best =
    Inr (fold max (map (\<lambda>(r, c). minimax_value (set_cell b r c 2) False)
           (filter (is_empty b) cells)) best, b)"
  using assms(4)
proof (induction cells arbitrary: best)
  case Nil
  show ?case by simp
next
  case (Cons rc cells)
  obtain r c where rc: "rc = (r, c)" by (cases rc)
  with Cons.prems have range: "r < BOARD_ROWS" "c < BOARD_COLS" and sub: "set cells \<subseteq> set all_cells"
    by (auto simp: in_all_cells_iff)
  show ?case
  proof (cases "cell b r c = 0")
    case True
    with assms(2,3) range have "num_empty (set_cell b r c 2) < n"
      using num_empty_set_cell_wf [of b r c 2] by simp
    with assms(2) have "minimax n (set_cell b r c 2) (depth + 1) False =
        Inr (minimax_value (set_cell b r c 2) False, set_cell b r c 2)"
      by (intro calls) simp_all
    with True Cons.IH [OF sub] assms(2) range show ?thesis
      by (simp add: rc is_empty_wf in_all_cells_iff set_cell_same)
  next
    case False
    with Cons.IH [OF sub] assms(2) range show ?thesis
      by (simp add: rc is_empty_wf in_all_cells_iff)
  qed
qed

lemma minimax_min_correct:
  assumes calls: "\<And>b' d' m'. wf_board b' \<Longrightarrow> num_empty b' < n \<Longrightarrow>
      minimax n b' d' m' = Inr (minimax_value b' m', b')"
    and "wf_board b" "num_empty b \<le> n" "set cells \<subseteq> set all_cells"
  shows "minimax_min n cells b depth best =
    Inr (fold min (map (\<lambda>(r, c). minimax_value (set_cell b r c 1) True)
           (filter (is_empty b) cells)) best, b)"
  using assms(4)
proof (induction cells arbitrary: best)
  case Nil
  show ?case by simp
next
  case (Cons rc cells)
  obtain r c where rc: "rc = (r, c)" by (cases rc)
  with Cons.prems have range: "r < BOARD_ROWS" "c < BOARD_COLS" and sub: "set cells \<subseteq> set all_cells"
    by (auto simp: in_all_cells_iff)
  show ?case
  proof (cases "cell b r c = 0")
    case True
    with assms(2,3) range have "num_empty (set_cell b r c 1) < n"
      using num_empty_set_cell_wf [of b r c 1] by simp
    with assms(2) have "minimax n (set_cell b r c 1) (depth + 1) True =
        Inr (minimax_value (set_cell b r c 1) True, set_cell b r c 1)"
      by (intro calls) simp_all
    with True Cons.IH [OF sub] assms(2) range show ?thesis
      by (simp add: rc is_empty_wf in_all_cells_iff set_cell_same)
  next
    case False
    with Cons.IH [OF sub] assms(2) range show ?thesis
      by (simp add: rc is_empty_wf in_all_cells_iff)
  qed
qed

lemma minimax_correct:
  "wf_board b \<Longrightarrow> num_empty b < n \<Longrightarrow> minimax n b depth m = Inr (minimax_value b m, b)"
proof (induction n arbitrary: b depth m)
  case 0
  then show ?case by simp
next
  case (Suc n)
  from Suc.prems have le: "num_empty b \<le> n" by simp
  show ?case
  proof (cases "terminal b")
    case True
    then show ?thesis
      by (cases "check_win b 2"; cases "check_win b 1")
         (simp_all add: terminal_def minimax_value_terminal)
  next
    case False
    then have nt: "\<not> check_win b 2" "\<not> check_win b 1" "\<not> is_board_full b"
      by (simp_all add: terminal_def)
    show ?thesis
    proof (cases m)
      case True
      with nt minimax_max_correct [OF Suc.IH Suc.prems(1) le subset_refl] show ?thesis
        by (simp add: minimax_value.simps [of b] empty_cells_def)
    next
      case m: False
      with nt minimax_min_correct [OF Suc.IH Suc.prems(1) le subset_refl] show ?thesis
        by (simp add: minimax_value.simps [of b] empty_cells_def)
    qed
  qed
qed

section \<open>What holds for every budget and every board\<close>

text \<open>
  Whenever a call returns, the array is as it was on entry; the only exception a call can
  end with is \<^verbatim>\<open>RecursionError\<close>; and the \<^verbatim>\<open>depth\<close> argument, which the code
  passes on but never reads, does not influence the result.
\<close>

definition restores :: "board \<Rightarrow> (score \<times> board) result \<Rightarrow> bool" where
  "restores b res = (case res of Inl e \<Rightarrow> e = RecursionError | Inr (s, b') \<Rightarrow> b' = b)"

lemma restores_simps [simp]:
  "restores b (Inl e) \<longleftrightarrow> e = RecursionError"
  "restores b (Inr (s, b')) \<longleftrightarrow> b' = b"
  by (simp_all add: restores_def)

lemma restores_Inr: "restores b res \<Longrightarrow> res = Inr (s, b') \<Longrightarrow> b' = b"
  by simp

lemma minimax_max_restores:
  assumes calls: "\<And>b' d' m'. restores b' (minimax n b' d' m')"
  shows "restores b (minimax_max n cells b depth best)"
proof (induction cells arbitrary: best)
  case Nil
  show ?case by simp
next
  case (Cons rc cells)
  obtain r c where rc: "rc = (r, c)" by (cases rc)
  show ?case
  proof (cases "cell b r c = 0")
    case True
    with calls [of "set_cell b r c 2" "depth + 1" False] Cons.IH show ?thesis
      by (cases "minimax n (set_cell b r c 2) (depth + 1) False")
         (auto simp: rc set_cell_same)
  next
    case False
    with Cons.IH show ?thesis by (simp add: rc)
  qed
qed

lemma minimax_min_restores:
  assumes calls: "\<And>b' d' m'. restores b' (minimax n b' d' m')"
  shows "restores b (minimax_min n cells b depth best)"
proof (induction cells arbitrary: best)
  case Nil
  show ?case by simp
next
  case (Cons rc cells)
  obtain r c where rc: "rc = (r, c)" by (cases rc)
  show ?case
  proof (cases "cell b r c = 0")
    case True
    with calls [of "set_cell b r c 1" "depth + 1" True] Cons.IH show ?thesis
      by (cases "minimax n (set_cell b r c 1) (depth + 1) True")
         (auto simp: rc set_cell_same)
  next
    case False
    with Cons.IH show ?thesis by (simp add: rc)
  qed
qed

lemma minimax_restores: "restores b (minimax n b depth m)"
proof (induction n arbitrary: b depth m)
  case 0
  show ?case by simp
next
  case (Suc n)
  then show ?case
    by (simp add: minimax_max_restores minimax_min_restores)
qed

lemma minimax_max_depth:
  assumes calls: "\<And>b' d1 d2 m'. minimax n b' d1 m' = minimax n b' d2 m'"
  shows "minimax_max n cells b d best = minimax_max n cells b d' best"
proof (induction cells arbitrary: b best)
  case Nil
  show ?case by simp
next
  case (Cons rc cells)
  obtain r c where rc: "rc = (r, c)" by (cases rc)
  from calls [of "set_cell b r c 2" "d + 1" False "d' + 1"] Cons.IH show ?case
    by (simp add: rc cong: bind_result_cong)
qed

lemma minimax_min_depth:
  assumes calls: "\<And>b' d1 d2 m'. minimax n b' d1 m' = minimax n b' d2 m'"
  shows "minimax_min n cells b d best = minimax_min n cells b d' best"
proof (induction cells arbitrary: b best)
  case Nil
  show ?case by simp
next
  case (Cons rc cells)
  obtain r c where rc: "rc = (r, c)" by (cases rc)
  from calls [of "set_cell b r c 1" "d + 1" True "d' + 1"] Cons.IH show ?case
    by (simp add: rc cong: bind_result_cong)
qed

text \<open>C29: the \<^verbatim>\<open>depth\<close> argument, which every call passes on as \<^verbatim>\<open>depth + 1\<close>, has no
  influence on the result of \<^verbatim>\<open>minimax\<close>: scores do not tell a quick win from a slow one.\<close>

theorem minimax_ignores_depth: "minimax n b d m = minimax n b d' m"
proof (induction n arbitrary: b d d' m)
  case 0
  show ?case by simp
next
  case (Suc n)
  have mx: "minimax_max n cs b d best = minimax_max n cs b d' best" for cs best
    by (rule minimax_max_depth) (rule Suc)
  have mn: "minimax_min n cs b d best = minimax_min n cs b d' best" for cs best
    by (rule minimax_min_depth) (rule Suc)
  show ?case by (simp add: mx mn)
qed

section \<open>Evaluation on a literal board\<close>

lemmas minimax_eval =
  minimax.simps minimax_max.simps minimax_min.simps bind_result_simps prod.case
  all_cells_eq board_lit max_def min_def less_eq_score.simps less_score_def score.simps
  if_True if_False simp_thms rel_simps

lemma num_empty_lit:
  "num_empty [[a0, a1, a2], [b0, b1, b2], [c0, c1, c2]] =
     length (filter (\<lambda>v. v = 0) [a0, a1, a2, b0, b1, b2, c0, c1, c2])"
  by (simp add: num_empty_def empty_cells_def is_empty_def all_cells_eq cell_def)

text \<open>A position two moves before the end, with the computer (\<open>2\<close>) to move and win.\<close>

definition near_end :: board where
  "near_end = [[2, 1, 2], [1, 1, 2], [0, 2, 0]]"

section \<open>The search component's contract\<close>

text \<open>C2: with a call budget greater than the number of empty cells, \<^verbatim>\<open>minimax\<close> on a 3x3
  board returns the game value of the position, one of \<open>-1\<close>, \<open>0\<close>, \<open>1\<close>, and leaves the
  board exactly as it found it.\<close>

theorem minimax_computes_value:
  assumes "wf_board b" "num_empty b < n"
  shows "minimax n b depth m = Inr (minimax_value b m, b) \<and> outcome_score (minimax_value b m)"
  using assms by (simp add: minimax_correct outcome_minimax_value)

theorem minimax_computes_value_witness:
  "wf_board near_end \<and> num_empty near_end < Suc (Suc (Suc 0))
   \<and> minimax_value near_end True = Fin 1"
proof -
  have run: "minimax (Suc (Suc (Suc 0))) near_end 0 True = Inr (Fin 1, near_end)"
    by (simp only: near_end_def minimax_eval cong: if_weak_cong)
  have hyps: "wf_board near_end" "num_empty near_end < Suc (Suc (Suc 0))"
    by (simp_all add: near_end_def num_empty_lit)
  from minimax_computes_value [OF hyps, of 0 True] run hyps show ?thesis by simp
qed

text \<open>C3: for every budget and every board, a call of \<^verbatim>\<open>minimax\<close> that returns leaves the
  array as it was on entry (every placed mark has been retracted), and a call that does not
  return ends with \<^verbatim>\<open>RecursionError\<close> and nothing else.\<close>

theorem minimax_leaves_board:
  "case minimax n b depth m of Inl e \<Rightarrow> e = RecursionError | Inr (s, b') \<Rightarrow> b' = b"
  using minimax_restores [of b n depth m] by (simp add: restores_def)

text \<open>C6: a budget of ten nested calls is enough for every 3x3 board: \<^verbatim>\<open>minimax\<close> returns
  a score among \<open>-1\<close>, \<open>0\<close>, \<open>1\<close> and never raises \<^verbatim>\<open>RecursionError\<close>.\<close>

theorem minimax_budget:
  assumes "wf_board b" "10 \<le> n"
  shows "\<exists>s. minimax n b depth m = Inr (s, b) \<and> outcome_score s"
proof -
  from assms(2) have "num_empty b < n" using num_empty_le [of b] by simp
  with assms(1) show ?thesis by (simp add: minimax_correct outcome_minimax_value)
qed

theorem minimax_budget_witness:
  "wf_board init_board \<and> (10::nat) \<le> 10
   \<and> (\<exists>s. minimax 10 init_board 0 False = Inr (s, init_board) \<and> outcome_score s)"
  using minimax_budget [of init_board 10 0 False] by simp

section \<open>The budget that is needed\<close>

text \<open>
  \<open>long_game b m p\<close>: the cells \<open>p\<close> can be marked one after the other from \<open>b\<close>, the sides
  alternating (\<open>m\<close>: the computer begins), and before each of these moves the game is not over.
\<close>

fun long_game :: "board \<Rightarrow> bool \<Rightarrow> (nat \<times> nat) list \<Rightarrow> bool" where
  "long_game b m [] = True"
| "long_game b m ((r, c) # p) =
     (\<not> terminal b \<and> r < BOARD_ROWS \<and> c < BOARD_COLS \<and> cell b r c = 0
      \<and> long_game (set_cell b r c (if m then 2 else 1)) (\<not> m) p)"

lemma minimax_Inl: "minimax n b depth m = Inl e \<Longrightarrow> e = RecursionError"
  using minimax_restores [of b n depth m] by simp

lemma minimax_max_raises:
  assumes "(r, c) \<in> set cells" "cell b r c = 0"
    "\<And>d. minimax n (set_cell b r c 2) d False = Inl RecursionError"
  shows "minimax_max n cells b depth best = Inl RecursionError"
  using assms(1)
proof (induction cells arbitrary: best)
  case Nil
  then show ?case by simp
next
  case (Cons rc cells)
  obtain r' c' where rc: "rc = (r', c')" by (cases rc)
  show ?case
  proof (cases "(r', c') = (r, c)")
    case True
    with assms(2,3) show ?thesis by (simp add: rc)
  next
    case False
    with Cons.prems have IH: "minimax_max n cells b depth best' = Inl RecursionError" for best'
      by (intro Cons.IH) (auto simp: rc)
    show ?thesis
    proof (cases "cell b r' c' = 0")
      case empty: True
      show ?thesis
      proof (cases "minimax n (set_cell b r' c' 2) (depth + 1) False")
        case (Inl e)
        with empty minimax_Inl [OF Inl] show ?thesis by (simp add: rc)
      next
        case (Inr res)
        obtain s b' where res: "res = (s, b')" by (cases res)
        with Inr minimax_restores [of "set_cell b r' c' 2" n "depth + 1" False]
        have "b' = set_cell b r' c' 2" by simp
        with empty Inr res IH show ?thesis by (simp add: rc set_cell_same)
      qed
    next
      case False
      with IH show ?thesis by (simp add: rc)
    qed
  qed
qed

lemma minimax_min_raises:
  assumes "(r, c) \<in> set cells" "cell b r c = 0"
    "\<And>d. minimax n (set_cell b r c 1) d True = Inl RecursionError"
  shows "minimax_min n cells b depth best = Inl RecursionError"
  using assms(1)
proof (induction cells arbitrary: best)
  case Nil
  then show ?case by simp
next
  case (Cons rc cells)
  obtain r' c' where rc: "rc = (r', c')" by (cases rc)
  show ?case
  proof (cases "(r', c') = (r, c)")
    case True
    with assms(2,3) show ?thesis by (simp add: rc)
  next
    case False
    with Cons.prems have IH: "minimax_min n cells b depth best' = Inl RecursionError" for best'
      by (intro Cons.IH) (auto simp: rc)
    show ?thesis
    proof (cases "cell b r' c' = 0")
      case empty: True
      show ?thesis
      proof (cases "minimax n (set_cell b r' c' 1) (depth + 1) True")
        case (Inl e)
        with empty minimax_Inl [OF Inl] show ?thesis by (simp add: rc)
      next
        case (Inr res)
        obtain s b' where res: "res = (s, b')" by (cases res)
        with Inr minimax_restores [of "set_cell b r' c' 1" n "depth + 1" True]
        have "b' = set_cell b r' c' 1" by simp
        with empty Inr res IH show ?thesis by (simp add: rc set_cell_same)
      qed
    next
      case False
      with IH show ?thesis by (simp add: rc)
    qed
  qed
qed

definition draw_path :: "(nat \<times> nat) list" where
  "draw_path = [(1, 1), (0, 0), (0, 1), (2, 1), (2, 0), (0, 2), (1, 2), (1, 0), (2, 2)]"

lemma long_game_draw_path: "long_game init_board False draw_path"
  by (simp add: draw_path_def init_board_eq terminal_def BOARD_ROWS_def BOARD_COLS_def board_lit)

text \<open>C9: the budget is needed: when a game of \<open>k\<close> further moves can be played from a position
  without ending before the last of them, \<^verbatim>\<open>minimax\<close> with a budget of \<open>k\<close> or less raises
  \<^verbatim>\<open>RecursionError\<close>. From the empty board a game can last nine moves, so that ten nested calls
  are the least budget that works there.\<close>

theorem minimax_budget_needed:
  assumes "long_game b m p" "n \<le> length p"
  shows "minimax n b depth m = Inl RecursionError"
  using assms
proof (induction n arbitrary: b m p depth)
  case 0
  show ?case by simp
next
  case (Suc n)
  from Suc.prems(2) obtain r c p' where p: "p = (r, c) # p'" and len: "n \<le> length p'"
    by (cases p) auto
  with Suc.prems(1) have nt: "\<not> terminal b" and mem: "(r, c) \<in> set all_cells"
    and empty: "cell b r c = 0"
    and rest: "long_game (set_cell b r c (if m then 2 else 1)) (\<not> m) p'"
    by (simp_all add: in_all_cells_iff)
  from nt have nt': "\<not> check_win b 2" "\<not> check_win b 1" "\<not> is_board_full b"
    by (simp_all add: terminal_def)
  show ?case
  proof (cases m)
    case True
    with rest len have "minimax n (set_cell b r c 2) d False = Inl RecursionError" for d
      by (intro Suc.IH [of _ _ p']) simp_all
    with True nt' mem empty show ?thesis by (simp add: minimax_max_raises)
  next
    case False
    with rest len have "minimax n (set_cell b r c 1) d True = Inl RecursionError" for d
      by (intro Suc.IH [of _ _ p']) simp_all
    with False nt' mem empty show ?thesis by (simp add: minimax_min_raises)
  qed
qed

theorem minimax_budget_needed_witness:
  "long_game init_board False draw_path \<and> 9 \<le> length draw_path
   \<and> minimax 9 init_board 0 False = Inl RecursionError"
  using minimax_budget_needed [OF long_game_draw_path, of 9 0] long_game_draw_path
  by (simp add: draw_path_def)

end
