(* ===== verification/Best_Move.thy ===== *)
theory Best_Move
  imports Minimax
begin

text \<open>
  \<^verbatim>\<open>best_move\<close> of \<^verbatim>\<open>src/project_mini.py\<close>, lines 129 to 145: the scan that tries the
  computer's mark on every empty cell, asks \<^verbatim>\<open>minimax\<close> for the value of the resulting
  position with the human to move, retracts the mark, and keeps the first cell whose score
  is strictly greater than every score before it; then the write of the chosen cell through
  \<^verbatim>\<open>mark_square\<close>. The sentinel \<^verbatim>\<open>(-1, -1)\<close> of the code is kept. \<open>best_cell\<close> is the
  specification of the choice, stated on the game value.
\<close>

section \<open>The code\<close>

fun best_move_loop ::
  "nat \<Rightarrow> (nat \<times> nat) list \<Rightarrow> board \<Rightarrow> score \<Rightarrow> int \<times> int \<Rightarrow> (board \<times> score \<times> (int \<times> int)) result"
where
  "best_move_loop n [] b best_score move = Inr (b, best_score, move)"
| "best_move_loop n ((row, col) # cells) b best_score move =
     (if cell b row col = 0 then
        bind_result (minimax n (set_cell b row col 2) 0 False) (\<lambda>(score, b').
        if best_score < score
        then best_move_loop n cells (set_cell b' row col 0) score (int row, int col)
        else best_move_loop n cells (set_cell b' row col 0) best_score move)
      else best_move_loop n cells b best_score move)"

definition best_move :: "nat \<Rightarrow> board \<Rightarrow> (bool \<times> board) result" where
  "best_move n b =
     bind_result (best_move_loop n all_cells b NegInf (- 1, - 1)) (\<lambda>(b', best_score, move).
     if move \<noteq> (- 1, - 1)
     then bind_result (mark_square b' (fst move) (snd move) 2) (\<lambda>b''. Inr (True, b''))
     else Inr (False, b'))"

section \<open>The specification\<close>

text \<open>The value of putting the computer's mark on a cell.\<close>

definition move_value :: "board \<Rightarrow> nat \<times> nat \<Rightarrow> score" where
  "move_value b = (\<lambda>(row, col). minimax_value (set_cell b row col 2) False)"

fun scan_best ::
  "(nat \<times> nat \<Rightarrow> score) \<Rightarrow> (nat \<times> nat) list \<Rightarrow> score \<Rightarrow> (nat \<times> nat) option
     \<Rightarrow> score \<times> (nat \<times> nat) option"
where
  "scan_best f [] best move = (best, move)"
| "scan_best f (x # xs) best move =
     (if best < f x then scan_best f xs (f x) (Some x) else scan_best f xs best move)"

definition best_cell :: "board \<Rightarrow> (nat \<times> nat) option" where
  "best_cell b = snd (scan_best (move_value b) (empty_cells b) NegInf None)"

section \<open>The scan keeps the first maximum\<close>

lemma fst_scan_best: "fst (scan_best f xs best move) = fold max (map f xs) best"
  by (induction xs arbitrary: best move) (auto simp: max_def)

lemma snd_scan_best_cases:
  "snd (scan_best f xs best move) = move \<and> fold max (map f xs) best = best
   \<or> (\<exists>x \<in> set xs. snd (scan_best f xs best move) = Some x
        \<and> f x = fold max (map f xs) best \<and> best < f x)"
proof (induction xs arbitrary: best move)
  case Nil
  show ?case by simp
next
  case (Cons y ys)
  show ?case
  proof (cases "best < f y")
    case True
    have "f y \<le> fold max (map f ys) (f y)" by (rule fold_max_ge_init)
    with True have lt: "f y < fold max (map f ys) (f y) \<Longrightarrow> best < fold max (map f ys) (f y)"
      by simp
    from True Cons.IH [of "f y" "Some y"] show ?thesis
      by (auto simp: max_def dest: lt)
  next
    case False
    with Cons.IH [of best move] show ?thesis
      by (auto simp: max_def)
  qed
qed

lemma scan_best_None_iff:
  "snd (scan_best f xs NegInf None) = None \<longleftrightarrow> list_all (\<lambda>x. f x = NegInf) xs"
proof -
  have "fold max (map f xs) NegInf = NegInf \<longleftrightarrow> list_all (\<lambda>x. f x = NegInf) xs"
    using fold_max_le_iff [of "map f xs" NegInf NegInf]
    by (simp add: list_all_iff)
  with snd_scan_best_cases [of f xs NegInf None] show ?thesis
    by auto
qed

lemma scan_best_all_le:
  "\<forall>z \<in> set zs. f z \<le> best \<Longrightarrow> scan_best f zs best move = (best, move)"
  by (induction zs) (auto simp: not_less [symmetric])

lemma scan_best_first_max:
  assumes "snd (scan_best f xs best move) = Some x"
  shows "move = Some x \<and> (\<forall>z \<in> set xs. f z \<le> best)
       \<or> (\<exists>ys zs. xs = ys @ x # zs \<and> best < f x
             \<and> (\<forall>y \<in> set ys. f y < f x) \<and> (\<forall>z \<in> set zs. f z \<le> f x))"
  using assms
proof (induction xs arbitrary: best move)
  case Nil
  then show ?case by simp
next
  case (Cons y xs)
  show ?case
  proof (cases "best < f y")
    case True
    with Cons.prems have "snd (scan_best f xs (f y) (Some y)) = Some x" by simp
    from Cons.IH [OF this] show ?thesis
    proof (elim disjE conjE exE)
      assume "Some y = Some x" "\<forall>z \<in> set xs. f z \<le> f y"
      with True have "y # xs = [] @ x # xs \<and> best < f x
          \<and> (\<forall>y \<in> set []. f y < f x) \<and> (\<forall>z \<in> set xs. f z \<le> f x)"
        by simp
      then show ?thesis by blast
    next
      fix ys zs
      assume "xs = ys @ x # zs" "f y < f x" "\<forall>y \<in> set ys. f y < f x" "\<forall>z \<in> set zs. f z \<le> f x"
      with True have "y # xs = (y # ys) @ x # zs \<and> best < f x
          \<and> (\<forall>y \<in> set (y # ys). f y < f x) \<and> (\<forall>z \<in> set zs. f z \<le> f x)"
        by auto
      then show ?thesis by blast
    qed
  next
    case False
    with Cons.prems have "snd (scan_best f xs best move) = Some x" by simp
    from Cons.IH [OF this] show ?thesis
    proof (elim disjE conjE exE)
      assume "move = Some x" "\<forall>z \<in> set xs. f z \<le> best"
      with False show ?thesis by auto
    next
      fix ys zs
      assume "xs = ys @ x # zs" "best < f x" "\<forall>y \<in> set ys. f y < f x" "\<forall>z \<in> set zs. f z \<le> f x"
      with False have "y # xs = (y # ys) @ x # zs \<and> best < f x
          \<and> (\<forall>y \<in> set (y # ys). f y < f x) \<and> (\<forall>z \<in> set zs. f z \<le> f x)"
        by auto
      then show ?thesis by blast
    qed
  qed
qed

section \<open>The code chooses the specified cell\<close>

text \<open>The sentinel \<^verbatim>\<open>(-1, -1)\<close> stands for "no move yet".\<close>

definition enc_move :: "(nat \<times> nat) option \<Rightarrow> int \<times> int" where
  "enc_move mv = (case mv of None \<Rightarrow> (- 1, - 1) | Some (r, c) \<Rightarrow> (int r, int c))"

lemma enc_move_simps [simp]:
  "enc_move None = (- 1, - 1)"
  "enc_move (Some (r, c)) = (int r, int c)"
  by (simp_all add: enc_move_def)

lemma enc_move_eq_sentinel_iff [simp]: "enc_move mv = (- 1, - 1) \<longleftrightarrow> mv = None"
  by (cases mv) auto

lemma best_move_loop_correct:
  assumes "wf_board b" "num_empty b \<le> n" "set cells \<subseteq> set all_cells"
  shows "best_move_loop n cells b best (enc_move mv) =
    Inr (b, fst (scan_best (move_value b) (filter (is_empty b) cells) best mv),
         enc_move (snd (scan_best (move_value b) (filter (is_empty b) cells) best mv)))"
  using assms(3)
proof (induction cells arbitrary: best mv)
  case Nil
  show ?case by simp
next
  case (Cons rc cells)
  obtain r c where rc: "rc = (r, c)" by (cases rc)
  with Cons.prems have range: "r < BOARD_ROWS" "c < BOARD_COLS" and sub: "set cells \<subseteq> set all_cells"
    by (auto simp: in_all_cells_iff)
  show ?case
  proof (cases "cell b r c = 0")
    case True
    with assms(1,2) range have "num_empty (set_cell b r c 2) < n"
      using num_empty_set_cell_wf [of b r c 2] by simp
    with assms(1) have "minimax n (set_cell b r c 2) 0 False =
        Inr (move_value b (r, c), set_cell b r c 2)"
      by (simp add: minimax_correct move_value_def)
    with True Cons.IH [OF sub, of "move_value b (r, c)" "Some (r, c)"]
      Cons.IH [OF sub, of best mv] assms(1) range
    show ?thesis
      by (simp add: rc is_empty_wf in_all_cells_iff set_cell_same)
  next
    case False
    with Cons.IH [OF sub] assms(1) range show ?thesis
      by (simp add: rc is_empty_wf in_all_cells_iff)
  qed
qed

lemma best_cell_in_empty_cells: "best_cell b = Some rc \<Longrightarrow> rc \<in> set (empty_cells b)"
  using snd_scan_best_cases [of "move_value b" "empty_cells b" NegInf None]
  by (auto simp: best_cell_def)

lemma best_move_correct:
  assumes "wf_board b" "num_empty b \<le> n"
  shows "best_move n b =
    Inr (case best_cell b of None \<Rightarrow> (False, b) | Some (r, c) \<Rightarrow> (True, set_cell b r c 2))"
proof (cases "best_cell b")
  case None
  with best_move_loop_correct [OF assms subset_refl, of NegInf None] show ?thesis
    by (simp add: best_move_def best_cell_def empty_cells_def)
next
  case (Some rc)
  obtain r c where rc: "rc = (r, c)" by (cases rc)
  with Some have "r < BOARD_ROWS" "c < BOARD_COLS"
    using best_cell_in_empty_cells [of b rc] empty_cells_in_range [of r c b] by simp_all
  with Some rc assms(1) best_move_loop_correct [OF assms subset_refl, of NegInf None]
  show ?thesis
    by (simp add: best_move_def best_cell_def empty_cells_def)
qed

section \<open>What the specified cell is\<close>

lemma move_value_outcome:
  "wf_board b \<Longrightarrow> outcome_score (move_value b rc)"
  by (cases rc) (simp add: move_value_def outcome_minimax_value)

lemma best_cell_None_iff: "wf_board b \<Longrightarrow> best_cell b = None \<longleftrightarrow> is_board_full b"
proof -
  assume wf: "wf_board b"
  have "move_value b rc \<noteq> NegInf" for rc
    using move_value_outcome [OF wf, of rc] by auto
  then have "list_all (\<lambda>x. move_value b x = NegInf) (empty_cells b) \<longleftrightarrow> empty_cells b = []"
    by (cases "empty_cells b") simp_all
  with wf show ?thesis
    by (simp add: best_cell_def scan_best_None_iff is_board_full_iff_empty_cells)
qed

lemma map_move_value_children:
  "map (move_value b) (empty_cells b) = map (\<lambda>b'. minimax_value b' False) (children b 2)"
  by (simp add: children_def move_value_def comp_def case_prod_unfold)

lemma best_cell_value:
  assumes "wf_board b" "\<not> terminal b"
  obtains r c where "best_cell b = Some (r, c)" "(r, c) \<in> set (empty_cells b)"
    "minimax_value (set_cell b r c 2) False = minimax_value b True"
proof -
  from assms have "best_cell b \<noteq> None"
    by (simp add: best_cell_None_iff terminal_def)
  then obtain r c where some: "best_cell b = Some (r, c)" by (cases "best_cell b") auto
  with snd_scan_best_cases [of "move_value b" "empty_cells b" NegInf None]
  have "move_value b (r, c) = fold max (map (move_value b) (empty_cells b)) NegInf"
    by (auto simp: best_cell_def)
  with assms(2) have "minimax_value (set_cell b r c 2) False = minimax_value b True"
    by (simp add: minimax_value_max map_move_value_children [symmetric] move_value_def)
  with some best_cell_in_empty_cells [OF some] that show ?thesis by blast
qed

lemma best_cell_first_max:
  assumes "best_cell b = Some x"
  obtains ys zs where "empty_cells b = ys @ x # zs"
    "\<forall>y \<in> set ys. move_value b y < move_value b x"
    "\<forall>z \<in> set zs. move_value b z \<le> move_value b x"
  using scan_best_first_max [of "move_value b" "empty_cells b" NegInf None x] assms
  by (auto simp: best_cell_def)

lemma best_move_Inr_iff:
  assumes "wf_board b" "num_empty b \<le> n"
  shows "best_move n b = Inr (True, b') \<longleftrightarrow> (\<exists>r c. best_cell b = Some (r, c) \<and> b' = set_cell b r c 2)"
  using assms by (auto simp: best_move_correct split: option.splits)

lemma empty_cells_lit:
  "empty_cells [[a0, a1, a2], [b0, b1, b2], [c0, c1, c2]] =
     map snd (filter (\<lambda>(v, rc). v = 0)
       (zip [a0, a1, a2, b0, b1, b2, c0, c1, c2] all_cells))"
  by (simp add: empty_cells_def is_empty_def all_cells_eq cell_def)

section \<open>The move component's contract\<close>

text \<open>A full board without a line: the game ended in a draw.\<close>

definition drawn_board :: board where
  "drawn_board = [[1, 2, 1], [1, 2, 2], [2, 1, 1]]"

text \<open>C4: on a 3x3 board where the game is not over, \<^verbatim>\<open>best_move\<close> (with a budget of at
  least the number of empty cells) reports success, writes the computer's mark on one empty
  cell and nothing else, and the position it leaves has the value the computer could at best
  reach: the move is optimal.\<close>

theorem best_move_optimal:
  assumes "wf_board b" "\<not> terminal b" "num_empty b \<le> n"
  shows "\<exists>r c. r < BOARD_ROWS \<and> c < BOARD_COLS \<and> cell b r c = 0
    \<and> best_move n b = Inr (True, set_cell b r c 2)
    \<and> minimax_value (set_cell b r c 2) False = minimax_value b True"
proof -
  from assms(1,2) obtain r c where bc: "best_cell b = Some (r, c)"
    and mem: "(r, c) \<in> set (empty_cells b)"
    and val: "minimax_value (set_cell b r c 2) False = minimax_value b True"
    by (rule best_cell_value)
  from bc assms(1,3) have "best_move n b = Inr (True, set_cell b r c 2)"
    by (simp add: best_move_correct)
  with mem val assms(1) show ?thesis
    by (auto simp: in_empty_cells_iff)
qed

theorem best_move_optimal_witness:
  "wf_board near_end \<and> \<not> terminal near_end \<and> num_empty near_end \<le> 2
   \<and> (\<exists>r c. r < BOARD_ROWS \<and> c < BOARD_COLS \<and> cell near_end r c = 0
        \<and> best_move 2 near_end = Inr (True, set_cell near_end r c 2)
        \<and> minimax_value (set_cell near_end r c 2) False = minimax_value near_end True)"
proof -
  have hyps: "wf_board near_end" "\<not> terminal near_end" "num_empty near_end \<le> 2"
    by (simp_all add: near_end_def num_empty_lit terminal_def board_lit)
  from best_move_optimal [OF hyps] hyps show ?thesis by simp
qed

text \<open>C13: on a full board \<^verbatim>\<open>best_move\<close> finds no cell, reports \<^verbatim>\<open>False\<close> and leaves the
  board unchanged, whatever the budget: it makes no call of \<^verbatim>\<open>minimax\<close>.\<close>

theorem best_move_no_move:
  assumes "wf_board b" "is_board_full b"
  shows "best_move n b = Inr (False, b)"
proof -
  from assms have "best_cell b = None" by (simp add: best_cell_None_iff)
  moreover from assms have "num_empty b \<le> n" by (simp add: is_board_full_iff_num_empty)
  ultimately show ?thesis using assms(1) by (simp add: best_move_correct)
qed

theorem best_move_no_move_witness:
  "wf_board drawn_board \<and> is_board_full drawn_board
   \<and> best_move 0 drawn_board = Inr (False, drawn_board)"
proof -
  have hyps: "wf_board drawn_board" "is_board_full drawn_board"
    by (simp_all add: drawn_board_def board_lit)
  from best_move_no_move [OF hyps, of 0] hyps show ?thesis by simp
qed

text \<open>C11: the cell \<^verbatim>\<open>best_move\<close> marks is the first maximum of the scan: every empty cell
  before it in row-major order has a strictly smaller value, every empty cell after it a value
  that is not greater. This is the tie-break of the strict comparison in line 139.\<close>

theorem best_move_tie_break:
  assumes "wf_board b" "num_empty b \<le> n" "best_move n b = Inr (True, b')"
  shows "\<exists>r c ys zs. b' = set_cell b r c 2 \<and> empty_cells b = ys @ (r, c) # zs
     \<and> (\<forall>y \<in> set ys. move_value b y < move_value b (r, c))
     \<and> (\<forall>z \<in> set zs. move_value b z \<le> move_value b (r, c))"
proof -
  from assms obtain r c where bc: "best_cell b = Some (r, c)" and b': "b' = set_cell b r c 2"
    by (auto simp: best_move_Inr_iff)
  from bc obtain ys zs where "empty_cells b = ys @ (r, c) # zs"
    "\<forall>y \<in> set ys. move_value b y < move_value b (r, c)"
    "\<forall>z \<in> set zs. move_value b z \<le> move_value b (r, c)"
    by (rule best_cell_first_max)
  with b' show ?thesis by blast
qed

lemma best_move_near_end:
  "best_move (Suc (Suc 0)) near_end = Inr (True, [[2, 1, 2], [1, 1, 2], [0, 2, 2]])"
  by (simp add: best_move_def near_end_def all_cells_eq board_lit mark_square_def np_index_def
        less_score_def)

theorem best_move_tie_break_witness:
  "wf_board near_end \<and> num_empty near_end \<le> Suc (Suc 0)
   \<and> best_move (Suc (Suc 0)) near_end = Inr (True, [[2, 1, 2], [1, 1, 2], [0, 2, 2]])
   \<and> empty_cells near_end = [(2, 0), (2, 2)]
   \<and> move_value near_end (2, 0) < move_value near_end (2, 2)"
proof -
  have hyps: "wf_board near_end" "num_empty near_end \<le> Suc (Suc 0)"
    by (simp_all add: near_end_def num_empty_lit)
  have ec: "empty_cells near_end = [(2, 0), (2, 2)]"
    by (simp add: near_end_def empty_cells_lit all_cells_eq)
  from best_move_tie_break [OF hyps best_move_near_end] obtain r c ys zs
    where b': "[[2, 1, 2], [1, 1, 2], [0, 2, 2]] = set_cell near_end r c 2"
      and split: "empty_cells near_end = ys @ (r, c) # zs"
      and less: "\<forall>y \<in> set ys. move_value near_end y < move_value near_end (r, c)"
    by blast
  from split ec have "(r, c) = (2, 0) \<and> ys = [] \<or> (r, c) = (2, 2) \<and> ys = [(2, 0)]"
    by (auto simp: Cons_eq_append_conv)
  with b' have "(r, c) = (2, 2) \<and> ys = [(2, 0)]"
    by (auto simp: near_end_def board_lit)
  with less hyps ec show ?thesis by (simp add: best_move_near_end)
qed

text \<open>A board on which the human already has a line, with empty cells left.\<close>

definition won_board :: board where
  "won_board = [[1, 1, 1], [2, 2, 0], [0, 0, 0]]"

text \<open>C21: \<^verbatim>\<open>best_move\<close> looks only for an empty cell: on every board that is not full,
  also one where a side has already won, it marks a cell and reports \<^verbatim>\<open>True\<close>.\<close>

theorem best_move_ignores_winner:
  assumes "wf_board b" "\<not> is_board_full b" "num_empty b \<le> n"
  shows "\<exists>r c. r < BOARD_ROWS \<and> c < BOARD_COLS \<and> cell b r c = 0
    \<and> best_move n b = Inr (True, set_cell b r c 2)"
proof -
  from assms(1,2) obtain r c where bc: "best_cell b = Some (r, c)"
    by (cases "best_cell b") (auto simp: best_cell_None_iff)
  then have "(r, c) \<in> set (empty_cells b)" by (rule best_cell_in_empty_cells)
  with bc assms(1,3) show ?thesis
    by (auto simp: best_move_correct in_empty_cells_iff)
qed

theorem best_move_ignores_winner_witness:
  "wf_board won_board \<and> \<not> is_board_full won_board \<and> num_empty won_board \<le> 4
   \<and> check_win won_board 1
   \<and> (\<exists>r c. r < BOARD_ROWS \<and> c < BOARD_COLS \<and> cell won_board r c = 0
        \<and> best_move 4 won_board = Inr (True, set_cell won_board r c 2))"
proof -
  have hyps: "wf_board won_board" "\<not> is_board_full won_board" "num_empty won_board \<le> 4"
    by (simp_all add: won_board_def num_empty_lit board_lit)
  from best_move_ignores_winner [OF hyps] hyps show ?thesis
    by (simp add: won_board_def board_lit)
qed

end
