(* ===== verification/Game_Value.thy ===== *)
theory Game_Value
  imports Best_Move
begin

text \<open>
  Bounds on the game value without running the whole search. \<open>value_ge n t b m\<close> decides
  \<open>t \<le> minimax_value b m\<close> by a search that stops at the first child that settles the
  question; it visits a small part of the tree \<^verbatim>\<open>minimax\<close> visits, so that the value of
  the empty board can be established by rewriting. \<open>value_le\<close> is the mirror image.
  \<open>best_cert\<close> checks with them that a given cell is the one \<^verbatim>\<open>best_move\<close> marks. All are
  proved sound against \<open>minimax_value\<close> and \<open>best_cell\<close>; none is part of the program.
\<close>

fun value_ge :: "nat \<Rightarrow> score \<Rightarrow> board \<Rightarrow> bool \<Rightarrow> bool"
  and some_child_ge :: "nat \<Rightarrow> score \<Rightarrow> (nat \<times> nat) list \<Rightarrow> board \<Rightarrow> bool"
  and all_children_ge :: "nat \<Rightarrow> score \<Rightarrow> (nat \<times> nat) list \<Rightarrow> board \<Rightarrow> bool"
where
  "value_ge 0 t b m = False"
| "value_ge (Suc n) t b m =
     (if check_win b 2 then t \<le> Fin 1
      else if check_win b 1 then t \<le> Fin (- 1)
      else if is_board_full b then t \<le> Fin 0
      else if m then some_child_ge n t all_cells b
      else all_children_ge n t all_cells b)"
| "some_child_ge n t [] b = (t = NegInf)"
| "some_child_ge n t ((r, c) # cs) b =
     (if cell b r c = 0
      then (if value_ge n t (set_cell b r c 2) False then True else some_child_ge n t cs b)
      else some_child_ge n t cs b)"
| "all_children_ge n t [] b = True"
| "all_children_ge n t ((r, c) # cs) b =
     (if cell b r c = 0
      then (if value_ge n t (set_cell b r c 1) True then all_children_ge n t cs b else False)
      else all_children_ge n t cs b)"

lemma some_child_ge_sound:
  assumes calls: "\<And>b' m'. wf_board b' \<Longrightarrow> value_ge n t b' m' \<Longrightarrow> t \<le> minimax_value b' m'"
    and "wf_board b" "set cs \<subseteq> set all_cells" "some_child_ge n t cs b"
  shows "t \<le> fold max (map (\<lambda>(r, c). minimax_value (set_cell b r c 2) False)
           (filter (is_empty b) cs)) NegInf"
  using assms(3,4)
proof (induction cs)
  case Nil
  then show ?case by simp
next
  case (Cons rc cs)
  obtain r c where rc: "rc = (r, c)" by (cases rc)
  with Cons.prems have mem: "(r, c) \<in> set all_cells" and sub: "set cs \<subseteq> set all_cells"
    by auto
  show ?case
  proof (cases "cell b r c = 0 \<and> value_ge n t (set_cell b r c 2) False")
    case True
    with assms(2) have "t \<le> minimax_value (set_cell b r c 2) False"
      by (intro calls) simp_all
    with True assms(2) mem show ?thesis
      by (simp add: rc is_empty_wf le_fold_max_iff)
  next
    case False
    with Cons.prems(2) have "some_child_ge n t cs b"
      by (auto simp: rc split: if_splits)
    with Cons.IH [OF sub] assms(2) mem show ?thesis
      by (auto simp: rc is_empty_wf le_fold_max_iff)
  qed
qed

lemma all_children_ge_sound:
  assumes calls: "\<And>b' m'. wf_board b' \<Longrightarrow> value_ge n t b' m' \<Longrightarrow> t \<le> minimax_value b' m'"
    and "wf_board b" "set cs \<subseteq> set all_cells" "all_children_ge n t cs b"
  shows "t \<le> fold min (map (\<lambda>(r, c). minimax_value (set_cell b r c 1) True)
           (filter (is_empty b) cs)) PosInf"
  using assms(3,4)
proof (induction cs)
  case Nil
  then show ?case by simp
next
  case (Cons rc cs)
  obtain r c where rc: "rc = (r, c)" by (cases rc)
  with Cons.prems have mem: "(r, c) \<in> set all_cells" and sub: "set cs \<subseteq> set all_cells"
    by auto
  show ?case
  proof (cases "cell b r c = 0")
    case True
    with Cons.prems(2) have ge: "value_ge n t (set_cell b r c 1) True" and rest: "all_children_ge n t cs b"
      by (auto simp: rc split: if_splits)
    from ge assms(2) have "t \<le> minimax_value (set_cell b r c 1) True"
      by (intro calls) simp_all
    with True Cons.IH [OF sub rest] assms(2) mem show ?thesis
      by (simp add: rc is_empty_wf le_fold_min_iff)
  next
    case False
    with Cons.prems(2) have "all_children_ge n t cs b" by (simp add: rc)
    with False Cons.IH [OF sub] assms(2) mem show ?thesis
      by (simp add: rc is_empty_wf)
  qed
qed

lemma value_ge_sound: "wf_board b \<Longrightarrow> value_ge n t b m \<Longrightarrow> t \<le> minimax_value b m"
proof (induction n arbitrary: b m)
  case 0
  then show ?case by simp
next
  case (Suc n)
  show ?case
  proof (cases "terminal b")
    case True
    with Suc.prems(2) show ?thesis
      by (cases "check_win b 2"; cases "check_win b 1")
         (simp_all add: terminal_def minimax_value_terminal)
  next
    case False
    then have nt: "\<not> check_win b 2" "\<not> check_win b 1" "\<not> is_board_full b"
      by (simp_all add: terminal_def)
    show ?thesis
    proof (cases m)
      case True
      with nt Suc.prems some_child_ge_sound [OF Suc.IH Suc.prems(1) subset_refl] show ?thesis
        by (simp add: minimax_value.simps [of b] empty_cells_def)
    next
      case m: False
      with nt Suc.prems all_children_ge_sound [OF Suc.IH Suc.prems(1) subset_refl] show ?thesis
        by (simp add: minimax_value.simps [of b] empty_cells_def)
    qed
  qed
qed

section \<open>Upper bounds\<close>

fun value_le :: "nat \<Rightarrow> score \<Rightarrow> board \<Rightarrow> bool \<Rightarrow> bool"
  and all_children_le :: "nat \<Rightarrow> score \<Rightarrow> (nat \<times> nat) list \<Rightarrow> board \<Rightarrow> bool"
  and some_child_le :: "nat \<Rightarrow> score \<Rightarrow> (nat \<times> nat) list \<Rightarrow> board \<Rightarrow> bool"
where
  "value_le 0 t b m = False"
| "value_le (Suc n) t b m =
     (if check_win b 2 then Fin 1 \<le> t
      else if check_win b 1 then Fin (- 1) \<le> t
      else if is_board_full b then Fin 0 \<le> t
      else if m then all_children_le n t all_cells b
      else some_child_le n t all_cells b)"
| "all_children_le n t [] b = True"
| "all_children_le n t ((r, c) # cs) b =
     (if cell b r c = 0
      then (if value_le n t (set_cell b r c 2) False then all_children_le n t cs b else False)
      else all_children_le n t cs b)"
| "some_child_le n t [] b = (t = PosInf)"
| "some_child_le n t ((r, c) # cs) b =
     (if cell b r c = 0
      then (if value_le n t (set_cell b r c 1) True then True else some_child_le n t cs b)
      else some_child_le n t cs b)"

lemma all_children_le_sound:
  assumes calls: "\<And>b' m'. wf_board b' \<Longrightarrow> value_le n t b' m' \<Longrightarrow> minimax_value b' m' \<le> t"
    and "wf_board b" "set cs \<subseteq> set all_cells" "all_children_le n t cs b"
  shows "fold max (map (\<lambda>(r, c). minimax_value (set_cell b r c 2) False)
           (filter (is_empty b) cs)) NegInf \<le> t"
  using assms(3,4)
proof (induction cs)
  case Nil
  then show ?case by simp
next
  case (Cons rc cs)
  obtain r c where rc: "rc = (r, c)" by (cases rc)
  with Cons.prems have mem: "(r, c) \<in> set all_cells" and sub: "set cs \<subseteq> set all_cells"
    by auto
  show ?case
  proof (cases "cell b r c = 0")
    case True
    with Cons.prems(2) have le: "value_le n t (set_cell b r c 2) False" and rest: "all_children_le n t cs b"
      by (auto simp: rc split: if_splits)
    from le assms(2) have "minimax_value (set_cell b r c 2) False \<le> t"
      by (intro calls) simp_all
    with True Cons.IH [OF sub rest] assms(2) mem show ?thesis
      by (simp add: rc is_empty_wf fold_max_le_iff)
  next
    case False
    with Cons.prems(2) have "all_children_le n t cs b" by (simp add: rc)
    with False Cons.IH [OF sub] assms(2) mem show ?thesis
      by (simp add: rc is_empty_wf)
  qed
qed

lemma some_child_le_sound:
  assumes calls: "\<And>b' m'. wf_board b' \<Longrightarrow> value_le n t b' m' \<Longrightarrow> minimax_value b' m' \<le> t"
    and "wf_board b" "set cs \<subseteq> set all_cells" "some_child_le n t cs b"
  shows "fold min (map (\<lambda>(r, c). minimax_value (set_cell b r c 1) True)
           (filter (is_empty b) cs)) PosInf \<le> t"
  using assms(3,4)
proof (induction cs)
  case Nil
  then show ?case by simp
next
  case (Cons rc cs)
  obtain r c where rc: "rc = (r, c)" by (cases rc)
  with Cons.prems have mem: "(r, c) \<in> set all_cells" and sub: "set cs \<subseteq> set all_cells"
    by auto
  show ?case
  proof (cases "cell b r c = 0 \<and> value_le n t (set_cell b r c 1) True")
    case True
    with assms(2) have "minimax_value (set_cell b r c 1) True \<le> t"
      by (intro calls) simp_all
    with True assms(2) mem show ?thesis
      by (simp add: rc is_empty_wf fold_min_le_iff)
  next
    case False
    with Cons.prems(2) have "some_child_le n t cs b"
      by (auto simp: rc split: if_splits)
    with Cons.IH [OF sub] assms(2) mem show ?thesis
      by (auto simp: rc is_empty_wf fold_min_le_iff)
  qed
qed

lemma value_le_sound: "wf_board b \<Longrightarrow> value_le n t b m \<Longrightarrow> minimax_value b m \<le> t"
proof (induction n arbitrary: b m)
  case 0
  then show ?case by simp
next
  case (Suc n)
  show ?case
  proof (cases "terminal b")
    case True
    with Suc.prems(2) show ?thesis
      by (cases "check_win b 2"; cases "check_win b 1")
         (simp_all add: terminal_def minimax_value_terminal)
  next
    case False
    then have nt: "\<not> check_win b 2" "\<not> check_win b 1" "\<not> is_board_full b"
      by (simp_all add: terminal_def)
    show ?thesis
    proof (cases m)
      case True
      with nt Suc.prems all_children_le_sound [OF Suc.IH Suc.prems(1) subset_refl] show ?thesis
        by (simp add: minimax_value.simps [of b] empty_cells_def)
    next
      case m: False
      with nt Suc.prems some_child_le_sound [OF Suc.IH Suc.prems(1) subset_refl] show ?thesis
        by (simp add: minimax_value.simps [of b] empty_cells_def)
    qed
  qed
qed

section \<open>The value of the empty board\<close>

lemmas value_search_eval =
  value_ge.simps some_child_ge.simps all_children_ge.simps
  value_le.simps some_child_le.simps all_children_le.simps all_cells_eq board_lit
  less_eq_score.simps score.simps if_True if_False simp_thms rel_simps
  order_refl le_minus_one_simps zero_le_one not_one_le_zero

lemma value_ge_init_board:
  "value_ge (Suc (Suc (Suc (Suc (Suc (Suc (Suc (Suc (Suc (Suc 0))))))))))
     (Fin 0) init_board False"
  by (simp only: init_board_eq value_search_eval cong: if_weak_cong)

lemma value_le_init_board:
  "value_le (Suc (Suc (Suc (Suc (Suc (Suc (Suc (Suc (Suc (Suc 0))))))))))
     (Fin 0) init_board False"
  by (simp only: init_board_eq value_search_eval cong: if_weak_cong)

lemma minimax_value_init_board_ge: "Fin 0 \<le> minimax_value init_board False"
  by (rule value_ge_sound [OF wf_init_board value_ge_init_board])

lemma minimax_value_init_board_le: "minimax_value init_board False \<le> Fin 0"
  by (rule value_le_sound [OF wf_init_board value_le_init_board])

text \<open>C5: run on the empty board with the human to move and a budget of ten calls,
  \<^verbatim>\<open>minimax\<close> returns \<open>0\<close>: with best play from both sides the game is a draw.\<close>

theorem minimax_on_empty_board:
  "minimax 10 init_board depth False = Inr (Fin 0, init_board)"
proof -
  have "minimax_value init_board False = Fin 0"
    using minimax_value_init_board_ge minimax_value_init_board_le by (rule order_antisym [rotated])
  then show ?thesis by (simp add: minimax_correct)
qed

section \<open>Checking the computer's move\<close>

text \<open>
  \<open>best_cert n lo hi i cells b\<close>: the cell at position \<open>i\<close> of \<open>cells\<close> is empty and its move
  has a value of at least \<open>hi\<close>, the empty cells before it have values of at most \<open>lo\<close>, those
  after it of at most \<open>hi\<close>. With \<open>lo < hi\<close> this makes it the first maximum of the scan.
\<close>

fun best_cert :: "nat \<Rightarrow> score \<Rightarrow> score \<Rightarrow> nat \<Rightarrow> (nat \<times> nat) list \<Rightarrow> board \<Rightarrow> bool" where
  "best_cert n lo hi i [] b = False"
| "best_cert n lo hi 0 ((r, c) # cs) b =
     (if cell b r c = 0
      then (if value_ge n hi (set_cell b r c 2) False then all_children_le n hi cs b else False)
      else False)"
| "best_cert n lo hi (Suc i) ((r, c) # cs) b =
     (if cell b r c = 0
      then (if value_le n lo (set_cell b r c 2) False then best_cert n lo hi i cs b else False)
      else best_cert n lo hi i cs b)"

lemma all_children_le_bound:
  assumes "wf_board b" "set cs \<subseteq> set all_cells" "all_children_le n t cs b"
  shows "\<forall>z \<in> set (filter (is_empty b) cs). move_value b z \<le> t"
proof -
  have "fold max (map (move_value b) (filter (is_empty b) cs)) NegInf \<le> t"
    unfolding move_value_def using value_le_sound assms by (rule all_children_le_sound)
  then show ?thesis by (simp add: fold_max_le_iff list_all_iff)
qed

lemma best_cert_sound:
  "wf_board b \<Longrightarrow> lo < hi \<Longrightarrow> set cs \<subseteq> set all_cells \<Longrightarrow> best_cert n lo hi i cs b \<Longrightarrow>
   best \<le> lo \<Longrightarrow>
   i < length cs \<and> snd (scan_best (move_value b) (filter (is_empty b) cs) best move) = Some (cs ! i)"
proof (induction n lo hi i cs b arbitrary: best move rule: best_cert.induct)
  case (1 n lo hi i b)
  then show ?case by simp
next
  case (2 n lo hi r c cs b)
  then have wf: "wf_board b" and empty: "cell b r c = 0"
    and ge: "value_ge n hi (set_cell b r c 2) False"
    and rest: "all_children_le n hi cs b" and range: "(r, c) \<in> set all_cells" "set cs \<subseteq> set all_cells"
    by (auto split: if_splits)
  from wf ge have hi: "hi \<le> move_value b (r, c)"
    by (simp add: move_value_def value_ge_sound)
  with \<open>best \<le> lo\<close> \<open>lo < hi\<close> have lt: "best < move_value b (r, c)" by simp
  from all_children_le_bound [OF wf range(2) rest] hi
  have "\<forall>z \<in> set (filter (is_empty b) cs). move_value b z \<le> move_value b (r, c)"
    by (auto intro: order_trans)
  with lt empty range wf show ?case
    by (simp add: is_empty_wf in_all_cells_iff scan_best_all_le)
next
  case (3 n lo hi i r c cs b)
  note wf = \<open>wf_board b\<close> and cert = \<open>best_cert n lo hi (Suc i) ((r, c) # cs) b\<close>
  from \<open>set ((r, c) # cs) \<subseteq> set all_cells\<close>
  have range: "(r, c) \<in> set all_cells" "set cs \<subseteq> set all_cells" by simp_all
  show ?case
  proof (cases "cell b r c = 0")
    case True
    with cert have le: "value_le n lo (set_cell b r c 2) False"
      and rest: "best_cert n lo hi i cs b"
      by (auto split: if_splits)
    from wf le have lo: "move_value b (r, c) \<le> lo"
      by (simp add: move_value_def value_le_sound)
    from "3.IH"(1) [OF True le wf \<open>lo < hi\<close> range(2) rest] lo \<open>best \<le> lo\<close> True range wf
    show ?thesis
      by (simp add: is_empty_wf in_all_cells_iff)
  next
    case False
    with cert have rest: "best_cert n lo hi i cs b" by simp
    from "3.IH"(2) [OF False wf \<open>lo < hi\<close> range(2) rest] \<open>best \<le> lo\<close> False range wf
    show ?thesis
      by (simp add: is_empty_wf in_all_cells_iff)
  qed
qed

lemma best_cell_cert:
  assumes "wf_board b" "lo < hi" "best_cert n lo hi i all_cells b"
  shows "best_cell b = Some (all_cells ! i)"
  using best_cert_sound [OF assms(1,2) subset_refl assms(3), of NegInf None]
  by (simp add: best_cell_def empty_cells_def)

lemma best_move_cert:
  assumes "wf_board b" "num_empty b \<le> n" "lo < hi" "best_cert k lo hi i all_cells b"
  shows "best_move n b = Inr (True, set_cell b (fst (all_cells ! i)) (snd (all_cells ! i)) 2)"
  using best_cell_cert [OF assms(1,3,4)] assms(1,2)
  by (simp add: best_move_correct split_beta)

lemmas best_cert_eval = best_cert.simps value_search_eval

lemma best_cert_init_board:
  "best_cert (Suc (Suc (Suc (Suc (Suc (Suc (Suc (Suc (Suc 0))))))))) (Fin (- 1)) (Fin 0) 0 all_cells
     init_board"
  by (simp only: init_board_eq best_cert_eval cong: if_weak_cong)

text \<open>C16: on the empty board \<^verbatim>\<open>best_move\<close> marks the top left corner: every first move
  has the value \<open>0\<close> at best and the corner is the first cell of the scan that reaches it.\<close>

theorem best_move_on_empty_board:
  "best_move 9 init_board = Inr (True, [[2, 0, 0], [0, 0, 0], [0, 0, 0]])"
  using best_move_cert [OF _ _ _ best_cert_init_board, of 9]
  by (simp add: init_board_eq num_empty_lit all_cells_eq board_lit)

end
