(* ===== verification/Game.thy ===== *)
theory Game
  imports Best_Move Game_Value
begin

text \<open>
  The turn controller: \<^verbatim>\<open>main\<close> of \<^verbatim>\<open>src/project_mini.py\<close>, lines 176 to 225. Its
  locals \<^verbatim>\<open>player\<close>, \<^verbatim>\<open>game_over\<close> and \<^verbatim>\<open>winner\<close> and the global array are the
  state; one pass of the \<^verbatim>\<open>while True\<close> loop handles the pygame events of the frame in
  order and then lets the computer move if it is its turn. \<^verbatim>\<open>sys.exit()\<close> and an index
  outside the array end the program with an exception.
\<close>

section \<open>State and events\<close>

record game =
  board :: board
  player :: int
  game_over :: bool
  winner :: "int option"

datatype event = QUIT | KEYDOWN int | MOUSEBUTTONDOWN int int | OTHER

definition K_r :: int where
  "K_r = 114"

definition init_game :: game where
  "init_game = \<lparr>board = init_board, player = 1, game_over = False, winner = None\<rparr>"

section \<open>One pass of the loop\<close>

definition restart :: "game \<Rightarrow> game" where
  "restart g = g\<lparr>board := clear_board (board g), game_over := False, winner := None, player := 1\<rparr>"

definition click :: "game \<Rightarrow> int \<Rightarrow> int \<Rightarrow> game result" where
  "click g x y =
     (let mouseX = x div SQUARE_SIZE; mouseY = y div SQUARE_SIZE in
      bind_result (available_square (board g) mouseY mouseX) (\<lambda>free.
      if free then
        bind_result (mark_square (board g) mouseY mouseX (player g)) (\<lambda>b'.
        if check_win b' (player g)
        then Inr (g\<lparr>board := b', game_over := True, winner := Some (player g)\<rparr>)
        else if is_board_full b'
        then Inr (g\<lparr>board := b', game_over := True, winner := Some 0\<rparr>)
        else Inr (g\<lparr>board := b', player := 2\<rparr>))
      else Inr g))"

fun handle_event :: "game \<Rightarrow> event \<Rightarrow> game result" where
  "handle_event g QUIT = Inl SystemExit"
| "handle_event g (KEYDOWN key) = Inr (if key = K_r \<and> game_over g then restart g else g)"
| "handle_event g (MOUSEBUTTONDOWN x y) =
     (if \<not> game_over g \<and> player g = 1 then click g x y else Inr g)"
| "handle_event g OTHER = Inr g"

fun handle_events :: "game \<Rightarrow> event list \<Rightarrow> game result" where
  "handle_events g [] = Inr g"
| "handle_events g (e # es) = bind_result (handle_event g e) (\<lambda>g'. handle_events g' es)"

definition ai_turn :: "nat \<Rightarrow> game \<Rightarrow> game result" where
  "ai_turn n g =
     (if \<not> game_over g \<and> player g = 2 then
        bind_result (best_move n (board g)) (\<lambda>(moved, b').
        if moved then
          (if check_win b' 2
           then Inr (g\<lparr>board := b', game_over := True, winner := Some 2\<rparr>)
           else if is_board_full b'
           then Inr (g\<lparr>board := b', game_over := True, winner := Some 0\<rparr>)
           else Inr (g\<lparr>board := b', player := 1\<rparr>))
        else Inr (g\<lparr>board := b'\<rparr>))
      else Inr g)"

definition frame :: "nat \<Rightarrow> game \<Rightarrow> event list \<Rightarrow> game result" where
  "frame n g events = bind_result (handle_events g events) (ai_turn n)"

fun run :: "nat \<Rightarrow> game \<Rightarrow> event list list \<Rightarrow> game result" where
  "run n g [] = Inr g"
| "run n g (events # frames) = bind_result (frame n g events) (\<lambda>g'. run n g' frames)"

text \<open>The states the program can be in when a frame has been drawn.\<close>

inductive reachable :: "nat \<Rightarrow> game \<Rightarrow> bool" for n :: nat where
  start: "reachable n init_game"
| step: "reachable n g \<Longrightarrow> frame n g events = Inr g' \<Longrightarrow> reachable n g'"

section \<open>The invariant\<close>

text \<open>
  \<open>safe b m\<close>: nobody has won, the board has an empty cell, and with best play from here
  (\<open>m\<close> tells whether the computer is to move) the computer does not lose.
\<close>

definition safe :: "board \<Rightarrow> bool \<Rightarrow> bool" where
  "safe b m \<longleftrightarrow> wf_board b \<and> \<not> terminal b \<and> Fin 0 \<le> minimax_value b m"

definition finished :: "game \<Rightarrow> bool" where
  "finished g \<longleftrightarrow> wf_board (board g) \<and> \<not> check_win (board g) 1 \<and>
     (winner g = Some 2 \<and> check_win (board g) 2
      \<or> winner g = Some 0 \<and> \<not> check_win (board g) 2 \<and> is_board_full (board g))"

definition game_inv :: "game \<Rightarrow> bool" where
  "game_inv g \<longleftrightarrow>
     (if game_over g then finished g
      else winner g = None \<and> (player g = 1 \<and> safe (board g) False
                              \<or> player g = 2 \<and> safe (board g) True))"

section \<open>Moves keep the position safe\<close>

lemma not_terminal_init_board [simp]: "\<not> terminal init_board"
  by (simp add: terminal_def)

lemma safe_init_board: "safe init_board False"
  by (simp add: safe_def minimax_value_init_board_ge)

lemma human_move:
  assumes "safe b False" "r < BOARD_ROWS" "c < BOARD_COLS" "cell b r c = 0"
  shows "wf_board (set_cell b r c 1)"
    and "\<not> check_win (set_cell b r c 1) 1"
    and "\<not> check_win (set_cell b r c 1) 2"
    and "\<not> is_board_full (set_cell b r c 1) \<Longrightarrow> safe (set_cell b r c 1) True"
proof -
  let ?b' = "set_cell b r c 1"
  from assms(1) have wf: "wf_board b" and nt: "\<not> terminal b" and ge: "Fin 0 \<le> minimax_value b False"
    by (simp_all add: safe_def)
  from wf show wf': "wf_board ?b'" by simp
  from wf assms(2-4) have "?b' \<in> set (children b 1)"
    by (auto simp: in_children_iff)
  with nt have "minimax_value b False \<le> minimax_value ?b' True"
    by (rule minimax_value_min_le)
  with ge have ge': "Fin 0 \<le> minimax_value ?b' True" by (rule order_trans)
  from nt wf assms(2,3) show no2: "\<not> check_win ?b' 2"
    by (auto simp: terminal_def dest: check_win_set_cell_other [where v = 1 and p = 2])
  show no1: "\<not> check_win ?b' 1"
  proof
    assume "check_win ?b' 1"
    with no2 have "minimax_value ?b' True = Fin (- 1)" by (simp add: minimax_value_terminal)
    with ge' show False by simp
  qed
  assume "\<not> is_board_full ?b'"
  with wf' no1 no2 ge' show "safe ?b' True" by (simp add: safe_def terminal_def)
qed

lemma computer_move:
  assumes "safe b True" "best_cell b = Some (r, c)"
  shows "wf_board (set_cell b r c 2)"
    and "\<not> check_win (set_cell b r c 2) 1"
    and "\<not> check_win (set_cell b r c 2) 2 \<Longrightarrow> \<not> is_board_full (set_cell b r c 2)
         \<Longrightarrow> safe (set_cell b r c 2) False"
proof -
  let ?b' = "set_cell b r c 2"
  from assms(1) have wf: "wf_board b" and nt: "\<not> terminal b" and ge: "Fin 0 \<le> minimax_value b True"
    by (simp_all add: safe_def)
  from wf show wf': "wf_board ?b'" by simp
  from wf nt obtain r' c' where "best_cell b = Some (r', c')"
    and "minimax_value (set_cell b r' c' 2) False = minimax_value b True"
    by (rule best_cell_value)
  with assms(2) ge have ge': "Fin 0 \<le> minimax_value ?b' False" by simp
  from assms(2) have "r < BOARD_ROWS" "c < BOARD_COLS"
    using best_cell_in_empty_cells [of b "(r, c)"] empty_cells_in_range [of r c b] by simp_all
  with nt wf show no1: "\<not> check_win ?b' 1"
    by (auto simp: terminal_def dest: check_win_set_cell_other [where v = 2 and p = 1])
  assume "\<not> check_win ?b' 2" "\<not> is_board_full ?b'"
  with wf' no1 ge' show "safe ?b' False" by (simp add: safe_def terminal_def)
qed

section \<open>Every handler keeps the invariant\<close>

lemma game_inv_init: "game_inv init_game"
  by (simp add: game_inv_def init_game_def safe_init_board)

lemma game_inv_restart: "game_inv g \<Longrightarrow> game_over g \<Longrightarrow> game_inv (restart g)"
  by (simp add: game_inv_def restart_def finished_def clear_board_eq safe_init_board)

lemma game_inv_click:
  assumes "game_inv g" "\<not> game_over g" "player g = 1" "click g x y = Inr g'"
  shows "game_inv g'"
proof -
  from assms(1-3) have safe: "safe (board g) False" and win: "winner g = None"
    by (simp_all add: game_inv_def)
  then have wf: "wf_board (board g)" by (simp add: safe_def)
  from assms(4) obtain free where free: "available_square (board g) (y div SQUARE_SIZE) (x div SQUARE_SIZE) = Inr free"
    by (auto simp: click_def Let_def bind_result_eq_Inr_iff)
  show ?thesis
  proof (cases free)
    case False
    with assms(1,4) free show ?thesis by (simp add: click_def Let_def)
  next
    case True
    with free wf obtain r c where rc: "np_index BOARD_ROWS (y div SQUARE_SIZE) = Inr r"
        "np_index BOARD_COLS (x div SQUARE_SIZE) = Inr c" "cell (board g) r c = 0"
      by (auto simp: available_square_Inr_iff)
    then have range: "r < BOARD_ROWS" "c < BOARD_COLS"
      by (auto dest: np_index_Inr_less)
    from rc wf have mark: "mark_square (board g) (y div SQUARE_SIZE) (x div SQUARE_SIZE) 1
        = Inr (set_cell (board g) r c 1)"
      by (simp add: mark_square_wf)
    note hm = human_move [OF safe range rc(3)]
    from assms(2-4) free True mark hm win show ?thesis
      by (auto simp: click_def Let_def game_inv_def finished_def split: if_splits)
  qed
qed

lemma game_inv_handle_event: "game_inv g \<Longrightarrow> handle_event g e = Inr g' \<Longrightarrow> game_inv g'"
  by (cases e) (auto simp: game_inv_restart game_inv_click split: if_splits)

lemma game_inv_handle_events: "game_inv g \<Longrightarrow> handle_events g es = Inr g' \<Longrightarrow> game_inv g'"
  by (induction es arbitrary: g)
     (auto simp: bind_result_eq_Inr_iff dest: game_inv_handle_event)

lemma ai_turn_result:
  assumes "game_inv g" "9 \<le> n"
  shows "\<exists>g'. ai_turn n g = Inr g' \<and> game_inv g' \<and> (game_over g' \<or> player g' = 1)"
proof (cases "\<not> game_over g \<and> player g = 2")
  case False
  with assms(1) show ?thesis
    by (auto simp: ai_turn_def game_inv_def split: if_splits)
next
  case True
  with assms(1) have safe: "safe (board g) True" and win: "winner g = None"
    by (simp_all add: game_inv_def)
  then have wf: "wf_board (board g)" and nt: "\<not> terminal (board g)" by (simp_all add: safe_def)
  from wf nt obtain r c where bc: "best_cell (board g) = Some (r, c)"
    by (rule best_cell_value)
  let ?b' = "set_cell (board g) r c 2"
  have "num_empty (board g) \<le> n" using num_empty_le [of "board g"] assms(2) by simp
  with wf bc have bm: "best_move n (board g) = Inr (True, ?b')"
    by (simp add: best_move_correct)
  note cm = computer_move [OF safe bc]
  show ?thesis
  proof (cases "check_win ?b' 2")
    case won: True
    with True bm cm(1,2) show ?thesis
      by (simp add: ai_turn_def game_inv_def finished_def)
  next
    case not_won: False
    show ?thesis
    proof (cases "is_board_full ?b'")
      case full: True
      with True not_won bm cm(1,2) show ?thesis
        by (simp add: ai_turn_def game_inv_def finished_def)
    next
      case False
      with True not_won bm cm(3) win show ?thesis
        by (simp add: ai_turn_def game_inv_def)
    qed
  qed
qed

lemma frame_inv:
  assumes "game_inv g" "9 \<le> n" "frame n g es = Inr g'"
  shows "game_inv g' \<and> (game_over g' \<or> player g' = 1)"
proof -
  from assms(3) obtain g1 where g1: "handle_events g es = Inr g1" and ai: "ai_turn n g1 = Inr g'"
    by (auto simp: frame_def bind_result_eq_Inr_iff)
  from assms(1) g1 have "game_inv g1" by (rule game_inv_handle_events)
  then obtain g2 where "ai_turn n g1 = Inr g2" "game_inv g2" "game_over g2 \<or> player g2 = 1"
    using assms(2) ai_turn_result by blast
  with ai show ?thesis by simp
qed

lemma reachable_inv:
  assumes "reachable n g" "9 \<le> n"
  shows "game_inv g \<and> (game_over g \<or> player g = 1)"
  using assms
proof (induction rule: reachable.induct)
  case start
  show ?case by (simp add: game_inv_init) (simp add: init_game_def)
next
  case (step g events g')
  then show ?case by (blast dest: frame_inv)
qed

lemma game_inv_no_human_win: "game_inv g \<Longrightarrow> winner g \<noteq> Some 1 \<and> \<not> check_win (board g) 1"
  by (auto simp: game_inv_def finished_def safe_def terminal_def split: if_splits)

end
