(* ===== verification/Sample_Games.thy ===== *)
theory Sample_Games
  imports Game
begin

text \<open>
  Two games played through the model of \<^verbatim>\<open>main\<close>, one frame per click of the human: one
  that the computer wins and one that ends in a draw. The computer's answers are not found by
  running the search but checked with \<open>best_cert\<close>. The states of these games are reachable
  states on which the general theorems about the loop can be applied.
\<close>

section \<open>Clicks and states\<close>

text \<open>A click in the middle of a square, where \<^verbatim>\<open>draw_figures\<close> puts the centre of a circle.\<close>

definition click_at :: "nat \<Rightarrow> nat \<Rightarrow> event" where
  "click_at row col = MOUSEBUTTONDOWN (int col * SQUARE_SIZE + SQUARE_SIZE div 2)
                                      (int row * SQUARE_SIZE + SQUARE_SIZE div 2)"

text \<open>A running game in which the human is to move.\<close>

definition running :: "board \<Rightarrow> game" where
  "running b = \<lparr>board = b, player = 1, game_over = False, winner = None\<rparr>"

lemma running_init_board: "running init_board = init_game"
  by (simp add: running_def init_game_def)

lemma run_append:
  "run n g (fs @ fs') = bind_result (run n g fs) (\<lambda>g'. run n g' fs')"
  by (induction fs arbitrary: g) (simp_all add: bind_result_assoc)

lemma run_reachable: "reachable n g \<Longrightarrow> run n g fs = Inr g' \<Longrightarrow> reachable n g'"
  by (induction fs arbitrary: g) (auto simp: bind_result_eq_Inr_iff intro: reachable.step)

lemmas frame_eval =
  frame_def click_at_def running_def click_def Let_def SQUARE_SIZE_def WIDTH_def BOARD_COLS_def
  available_square_def mark_square_def np_index_def ai_turn_def board_lit num_empty_lit all_cells_eq

section \<open>A game the computer wins\<close>

definition game_a :: "event list list" where
  "game_a = [[click_at 0 0], [click_at 0 1], [click_at 2 1], [click_at 2 0]]"

definition won_a :: game where
  "won_a = \<lparr>board = [[1, 1, 2], [2, 2, 2], [1, 1, 0]], player = 2, game_over = True,
            winner = Some 2\<rparr>"

lemma cert_a1:
  "best_cert (Suc (Suc (Suc (Suc (Suc (Suc (Suc (Suc (Suc 0))))))))) (Fin (- 1)) (Fin 0)
     (Suc (Suc (Suc (Suc 0)))) all_cells [[1, 0, 0], [0, 0, 0], [0, 0, 0]]"
  by (simp only: best_cert_eval cong: if_weak_cong)

lemma cert_a2:
  "best_cert (Suc (Suc (Suc (Suc (Suc (Suc (Suc (Suc (Suc 0))))))))) (Fin (- 1)) (Fin 0)
     (Suc (Suc 0)) all_cells [[1, 1, 0], [0, 2, 0], [0, 0, 0]]"
  by (simp only: best_cert_eval cong: if_weak_cong)

lemma cert_a3:
  "best_cert (Suc (Suc (Suc (Suc (Suc (Suc (Suc (Suc (Suc 0))))))))) (Fin 0) (Fin 1)
     (Suc (Suc (Suc 0))) all_cells [[1, 1, 2], [0, 2, 0], [0, 1, 0]]"
  by (simp only: best_cert_eval cong: if_weak_cong)

lemma cert_a4:
  "best_cert (Suc (Suc (Suc (Suc (Suc (Suc (Suc (Suc (Suc 0))))))))) (Fin 0) (Fin 1)
     (Suc (Suc (Suc (Suc (Suc 0))))) all_cells [[1, 1, 2], [2, 2, 0], [1, 1, 0]]"
  by (simp only: best_cert_eval cong: if_weak_cong)

lemma frame_a1:
  "frame 9 init_game [click_at 0 0] = Inr (running [[1, 0, 0], [0, 2, 0], [0, 0, 0]])"
  using best_move_cert [OF _ _ _ cert_a1, of 9]
  by (simp add: init_game_def init_board_eq frame_eval)

lemma frame_a2:
  "frame 9 (running [[1, 0, 0], [0, 2, 0], [0, 0, 0]]) [click_at 0 1] =
     Inr (running [[1, 1, 2], [0, 2, 0], [0, 0, 0]])"
  using best_move_cert [OF _ _ _ cert_a2, of 9]
  by (simp add: frame_eval)

lemma frame_a3:
  "frame 9 (running [[1, 1, 2], [0, 2, 0], [0, 0, 0]]) [click_at 2 1] =
     Inr (running [[1, 1, 2], [2, 2, 0], [0, 1, 0]])"
  using best_move_cert [OF _ _ _ cert_a3, of 9]
  by (simp add: frame_eval)

lemma frame_a4:
  "frame 9 (running [[1, 1, 2], [2, 2, 0], [0, 1, 0]]) [click_at 2 0] =
     Inr won_a"
  using best_move_cert [OF _ _ _ cert_a4, of 9]
  by (simp add: won_a_def frame_eval)

lemmas frames_a = frame_a1 frame_a2 frame_a3 frame_a4

lemma reachable_a3: "reachable 9 (running [[1, 1, 2], [2, 2, 0], [0, 1, 0]])"
  by (intro reachable.step [OF _ frame_a3] reachable.step [OF _ frame_a2]
        reachable.step [OF _ frame_a1] reachable.start)

lemma reachable_won_a: "reachable 9 won_a"
  by (rule reachable.step [OF reachable_a3 frame_a4])

text \<open>The human takes the cells (0,0), (0,1), (2,1) and (2,0), one click per frame; the
  computer answers (1,1), (0,2), (1,0) and (1,2), which completes the middle row.\<close>

lemma run_game_a: "run 9 init_game game_a = Inr won_a"
  by (simp add: game_a_def frames_a del: One_nat_def)

text \<open>C22: after two frames of this game (human on (0,0) and (0,1), computer on (1,1) and
  (0,2)) the human clicks (2,1), and the computer's third mark goes to (1,0), the first cell
  of the scan from which it wins by force, although marking (2,0) would have completed a
  diagonal at once: the search does not prefer the quicker win.\<close>

theorem best_move_delays_win:
  "reachable 9 (running [[1, 1, 2], [0, 2, 0], [0, 0, 0]])
   \<and> frame 9 (running [[1, 1, 2], [0, 2, 0], [0, 0, 0]]) [click_at 2 1]
       = Inr (running [[1, 1, 2], [2, 2, 0], [0, 1, 0]])
   \<and> check_win (set_cell [[1, 1, 2], [0, 2, 0], [0, 1, 0]] 2 0 2) 2"
proof -
  have "reachable 9 (running [[1, 1, 2], [0, 2, 0], [0, 0, 0]])"
    by (intro reachable.step [OF _ frame_a2] reachable.step [OF _ frame_a1] reachable.start)
  then show ?thesis by (simp add: frame_a3 board_lit del: One_nat_def)
qed

section \<open>A game that ends in a draw\<close>

definition game_b :: "event list list" where
  "game_b = [[click_at 1 1], [click_at 0 1], [click_at 2 0], [click_at 1 2], [click_at 2 2]]"

definition drawn_b :: game where
  "drawn_b = \<lparr>board = [[2, 1, 2], [2, 1, 1], [1, 2, 1]], player = 1, game_over = True,
              winner = Some 0\<rparr>"

lemma cert_b1:
  "best_cert (Suc (Suc (Suc (Suc (Suc (Suc (Suc (Suc (Suc 0))))))))) (Fin (- 1)) (Fin 0)
     0 all_cells [[0, 0, 0], [0, 1, 0], [0, 0, 0]]"
  by (simp only: best_cert_eval cong: if_weak_cong)

lemma cert_b2:
  "best_cert (Suc (Suc (Suc (Suc (Suc (Suc (Suc (Suc (Suc 0))))))))) (Fin (- 1)) (Fin 0)
     (Suc (Suc (Suc (Suc (Suc (Suc (Suc 0))))))) all_cells [[2, 1, 0], [0, 1, 0], [0, 0, 0]]"
  by (simp only: best_cert_eval cong: if_weak_cong)

lemma cert_b3:
  "best_cert (Suc (Suc (Suc (Suc (Suc (Suc (Suc (Suc (Suc 0))))))))) (Fin (- 1)) (Fin 0)
     (Suc (Suc 0)) all_cells [[2, 1, 0], [0, 1, 0], [1, 2, 0]]"
  by (simp only: best_cert_eval cong: if_weak_cong)

lemma cert_b4:
  "best_cert (Suc (Suc (Suc (Suc (Suc (Suc (Suc (Suc (Suc 0))))))))) (Fin (- 1)) (Fin 0)
     (Suc (Suc (Suc 0))) all_cells [[2, 1, 2], [0, 1, 1], [1, 2, 0]]"
  by (simp only: best_cert_eval cong: if_weak_cong)

lemma frame_b1:
  "frame 9 init_game [click_at 1 1] = Inr (running [[2, 0, 0], [0, 1, 0], [0, 0, 0]])"
  using best_move_cert [OF _ _ _ cert_b1, of 9]
  by (simp add: init_game_def init_board_eq frame_eval)

lemma frame_b2:
  "frame 9 (running [[2, 0, 0], [0, 1, 0], [0, 0, 0]]) [click_at 0 1] =
     Inr (running [[2, 1, 0], [0, 1, 0], [0, 2, 0]])"
  using best_move_cert [OF _ _ _ cert_b2, of 9]
  by (simp add: frame_eval)

lemma frame_b3:
  "frame 9 (running [[2, 1, 0], [0, 1, 0], [0, 2, 0]]) [click_at 2 0] =
     Inr (running [[2, 1, 2], [0, 1, 0], [1, 2, 0]])"
  using best_move_cert [OF _ _ _ cert_b3, of 9]
  by (simp add: frame_eval)

lemma frame_b4:
  "frame 9 (running [[2, 1, 2], [0, 1, 0], [1, 2, 0]]) [click_at 1 2] =
     Inr (running [[2, 1, 2], [2, 1, 1], [1, 2, 0]])"
  using best_move_cert [OF _ _ _ cert_b4, of 9]
  by (simp add: frame_eval)

lemma frame_b5:
  "frame 9 (running [[2, 1, 2], [2, 1, 1], [1, 2, 0]]) [click_at 2 2] =
     Inr drawn_b"
  by (simp add: drawn_b_def frame_eval)

lemmas frames_b = frame_b1 frame_b2 frame_b3 frame_b4 frame_b5

lemma reachable_drawn_b: "reachable 9 drawn_b"
  by (intro reachable.step [OF _ frame_b5] reachable.step [OF _ frame_b4]
        reachable.step [OF _ frame_b3] reachable.step [OF _ frame_b2]
        reachable.step [OF _ frame_b1] reachable.start)

text \<open>C23: the human takes (1,1), (0,1), (2,0), (1,2) and (2,2); the computer answers (0,0),
  (2,1), (0,2) and (1,0), blocking every line; the human's fifth mark fills the board and the
  loop ends with \<^verbatim>\<open>winner = 0\<close>, a draw. Pressing R then starts a new game.\<close>

theorem game_b_drawn:
  "run 9 init_game game_b = Inr drawn_b
   \<and> run 9 init_game (game_b @ [[KEYDOWN K_r]]) = Inr init_game"
proof -
  have "run 9 init_game game_b = Inr drawn_b"
    by (simp add: game_b_def frames_b del: One_nat_def)
  moreover have "frame 9 drawn_b [KEYDOWN K_r] = Inr init_game"
    by (simp add: frame_def drawn_b_def restart_def ai_turn_def init_game_def clear_board_lit
          init_board_eq)
  ultimately show ?thesis by (simp add: run_append)
qed

end
