(* ===== verification/Turn_Invariants.thy ===== *)
theory Turn_Invariants
  imports Sample_Games
begin

text \<open>
  More about the turn controller of \<^verbatim>\<open>main\<close>: what a click and the computer's turn do to the
  state in closed form, the balance of the marks, the agreement of the flags \<^verbatim>\<open>game_over\<close> and
  \<^verbatim>\<open>winner\<close> with the board, and which events a frame survives.
\<close>

section \<open>A click and the computer's turn in closed form\<close>

definition HEIGHT :: int where
  "HEIGHT = 600"

text \<open>
  The cascade that follows a placement, in the click handler (lines 200 to 207) and after
  \<^verbatim>\<open>best_move\<close> (lines 211 to 218): \<open>p\<close> has just moved, \<open>q\<close> is the other side.
\<close>

definition settle :: "game \<Rightarrow> board \<Rightarrow> int \<Rightarrow> int \<Rightarrow> game" where
  "settle g b' p q =
     (if check_win b' p then g\<lparr>board := b', game_over := True, winner := Some p\<rparr>
      else if is_board_full b' then g\<lparr>board := b', game_over := True, winner := Some 0\<rparr>
      else g\<lparr>board := b', player := q\<rparr>)"

text \<open>The events that come from inside the window and do not close it.\<close>

fun in_window :: "event \<Rightarrow> bool" where
  "in_window QUIT = False"
| "in_window (MOUSEBUTTONDOWN x y) = (0 \<le> x \<and> x < WIDTH \<and> 0 \<le> y \<and> y < HEIGHT)"
| "in_window (KEYDOWN key) = True"
| "in_window OTHER = True"

lemma board_settle [simp]: "board (settle g b' p q) = b'"
  by (simp add: settle_def)

lemma click_eq:
  assumes "wf_board (board g)"
  shows "click g x y =
    bind_result (np_index BOARD_ROWS (y div SQUARE_SIZE)) (\<lambda>r.
    bind_result (np_index BOARD_COLS (x div SQUARE_SIZE)) (\<lambda>c.
    Inr (if cell (board g) r c = 0
         then settle g (set_cell (board g) r c (player g)) (player g) 2 else g)))"
proof (cases "np_index BOARD_ROWS (y div SQUARE_SIZE)")
  case (Inl e)
  then show ?thesis by (simp add: click_def Let_def available_square_wf [OF assms])
next
  case r: (Inr r)
  show ?thesis
  proof (cases "np_index BOARD_COLS (x div SQUARE_SIZE)")
    case (Inl e)
    with r show ?thesis by (simp add: click_def Let_def available_square_wf [OF assms])
  next
    case (Inr c)
    with r show ?thesis
      by (simp add: click_def Let_def available_square_wf [OF assms] mark_square_wf [OF assms]
            settle_def)
  qed
qed

lemma square_of_pixel:
  assumes "0 \<le> x" "x < WIDTH"
  shows "np_index BOARD_COLS (x div SQUARE_SIZE) = Inr (nat (x div SQUARE_SIZE))"
    and "np_index BOARD_ROWS (x div SQUARE_SIZE) = Inr (nat (x div SQUARE_SIZE))"
    and "nat (x div SQUARE_SIZE) < 3"
  using assms
  by (auto simp: np_index_def WIDTH_def SQUARE_SIZE_def BOARD_COLS_def BOARD_ROWS_def)

lemma ai_turn_eq:
  assumes "game_inv g" "9 \<le> n" "\<not> game_over g" "player g = 2"
  obtains r c where "best_cell (board g) = Some (r, c)" "(r, c) \<in> set (empty_cells (board g))"
    "ai_turn n g = Inr (settle g (set_cell (board g) r c 2) 2 1)"
proof -
  from assms(1,3,4) have "safe (board g) True" by (simp add: game_inv_def)
  then have wf: "wf_board (board g)" and nt: "\<not> terminal (board g)" by (simp_all add: safe_def)
  from wf nt obtain r c where bc: "best_cell (board g) = Some (r, c)"
    and mem: "(r, c) \<in> set (empty_cells (board g))"
    by (rule best_cell_value)
  have "num_empty (board g) \<le> n" using num_empty_le [of "board g"] assms(2) by simp
  with wf bc have "best_move n (board g) = Inr (True, set_cell (board g) r c 2)"
    by (simp add: best_move_correct)
  with assms(3,4) have "ai_turn n g = Inr (settle g (set_cell (board g) r c 2) 2 1)"
    by (simp add: ai_turn_def settle_def)
  with bc mem show ?thesis by (rule that)
qed

lemma ai_turn_idle: "game_over g \<or> player g \<noteq> 2 \<Longrightarrow> ai_turn n g = Inr g"
  by (auto simp: ai_turn_def)

lemma game_inv_wf: "game_inv g \<Longrightarrow> wf_board (board g)"
  by (auto simp: game_inv_def finished_def safe_def split: if_splits)

section \<open>The balance of the marks\<close>

lemma count_list_marks:
  "list_all is_mark xs \<Longrightarrow> count_list xs 0 + count_list xs 1 + count_list xs 2 = length xs"
  by (induction xs) (auto simp: is_mark_def)

lemma count_mark_total:
  assumes "wf_board b" "marks_ok b"
  shows "count_mark b 0 + count_mark b 1 + count_mark b 2 = 9"
proof -
  have "marks_ok b \<Longrightarrow>
    count_mark b 0 + count_mark b 1 + count_mark b 2 = sum_list (map length b)" for b
    unfolding marks_ok_def count_mark_def
    by (induction b) (auto dest: count_list_marks)
  from this [OF assms(2)]
  have "count_mark b 0 + count_mark b 1 + count_mark b 2 = sum_list (map length b)" .
  also from assms(1) have "\<dots> = 9"
    by (elim wf_board_cases) simp
  finally show ?thesis .
qed

lemma count_mark_place:
  assumes "wf_board b" "(r, c) \<in> set (empty_cells b)" "p \<noteq> 0"
  shows "count_mark (set_cell b r c p) w = count_mark b w + (if p = w then 1 else 0) - (if w = 0 then 1 else 0)"
  using count_mark_set_cell [OF assms(1), of r c p w] assms
  by (auto simp: in_empty_cells_iff split: if_splits)

text \<open>
  \<open>turn_inv\<close>: every cell holds 0, 1 or 2; while the game runs the human has as many marks as
  the computer when it is the human's turn and one more when it is the computer's; a game the
  computer won ended with its move, a drawn game with the human's.
\<close>

definition turn_inv :: "game \<Rightarrow> bool" where
  "turn_inv g \<longleftrightarrow> marks_ok (board g) \<and>
     (if game_over g
      then (winner g = Some 2 \<longrightarrow> player g = 2 \<and> count_mark (board g) 1 = count_mark (board g) 2)
         \<and> (winner g = Some 0 \<longrightarrow> player g = 1 \<and> count_mark (board g) 1 = count_mark (board g) 2 + 1)
      else if player g = 2 then count_mark (board g) 1 = count_mark (board g) 2 + 1
      else count_mark (board g) 1 = count_mark (board g) 2)"

lemma turn_inv_init: "turn_inv init_game"
  by (simp add: turn_inv_def init_game_def)

lemma turn_inv_restart: "game_inv g \<Longrightarrow> turn_inv (restart g)"
  by (simp add: turn_inv_def restart_def clear_board_eq game_inv_wf)

lemma marks_ok_place:
  "wf_board b \<Longrightarrow> marks_ok b \<Longrightarrow> (r, c) \<in> set (empty_cells b) \<Longrightarrow> is_mark p \<Longrightarrow>
   marks_ok (set_cell b r c p)"
  by (auto intro: marks_ok_set_cell dest: empty_cells_in_range)

lemma turn_inv_human:
  assumes "wf_board (board g)" "turn_inv g" "\<not> game_over g" "player g = 1"
    "(r, c) \<in> set (empty_cells (board g))"
  shows "turn_inv (settle g (set_cell (board g) r c 1) 1 2)"
  using assms
  by (auto simp: turn_inv_def settle_def count_mark_place marks_ok_place is_mark_def)

lemma turn_inv_computer:
  assumes "wf_board (board g)" "turn_inv g" "\<not> game_over g" "player g = 2"
    "(r, c) \<in> set (empty_cells (board g))"
  shows "turn_inv (settle g (set_cell (board g) r c 2) 2 1)"
proof -
  let ?b' = "set_cell (board g) r c 2"
  from assms have ok: "marks_ok ?b'" and wf: "wf_board ?b'"
    and eq: "count_mark ?b' 1 = count_mark ?b' 2"
    by (auto simp: turn_inv_def count_mark_place marks_ok_place is_mark_def)
  have "count_mark ?b' 0 \<noteq> 0"
    using count_mark_total [OF wf ok] eq by arith
  then have "\<not> is_board_full ?b'"
    by (simp add: is_board_full_iff_count [OF wf])
  with assms(3,4) ok eq show ?thesis
    by (simp add: turn_inv_def settle_def)
qed

section \<open>The invariant of the loop\<close>

definition loop_inv :: "game \<Rightarrow> bool" where
  "loop_inv g \<longleftrightarrow> game_inv g \<and> turn_inv g"

lemmas loop_invD = loop_inv_def [THEN iffD1, THEN conjunct1] loop_inv_def [THEN iffD1, THEN conjunct2]

lemma loop_inv_init: "loop_inv init_game"
  by (simp add: loop_inv_def game_inv_init turn_inv_init)

lemma turn_inv_click:
  assumes "loop_inv g" "\<not> game_over g" "player g = 1" "click g x y = Inr g'"
  shows "turn_inv g'"
proof -
  from assms(1) have wf: "wf_board (board g)" and ti: "turn_inv g"
    by (simp_all add: loop_inv_def game_inv_wf)
  from assms(4) obtain r c where rc: "r < BOARD_ROWS" "c < BOARD_COLS"
    and g': "g' = (if cell (board g) r c = 0
                   then settle g (set_cell (board g) r c (player g)) (player g) 2 else g)"
    by (auto simp: click_eq [OF wf] bind_result_eq_Inr_iff dest: np_index_Inr_less)
  show ?thesis
  proof (cases "cell (board g) r c = 0")
    case True
    with rc wf have "(r, c) \<in> set (empty_cells (board g))" by (simp add: in_empty_cells_iff)
    with wf ti assms(2,3) g' True show ?thesis by (simp add: turn_inv_human)
  next
    case False
    with g' ti show ?thesis by simp
  qed
qed

lemma loop_inv_handle_event:
  assumes "loop_inv g" "handle_event g e = Inr g'"
  shows "loop_inv g'"
proof -
  from assms have "game_inv g'" by (auto simp: loop_inv_def dest: game_inv_handle_event)
  moreover from assms have "turn_inv g'"
    by (cases e)
       (auto simp: turn_inv_restart loop_invD turn_inv_click split: if_splits)
  ultimately show ?thesis by (simp add: loop_inv_def)
qed

lemma loop_inv_handle_events: "loop_inv g \<Longrightarrow> handle_events g es = Inr g' \<Longrightarrow> loop_inv g'"
  by (induction es arbitrary: g)
     (auto simp: bind_result_eq_Inr_iff dest: loop_inv_handle_event)

lemma loop_inv_ai_turn:
  assumes "loop_inv g" "9 \<le> n"
  obtains g' where "ai_turn n g = Inr g'" "loop_inv g'" "game_over g' \<or> player g' = 1"
proof -
  from assms have gi: "game_inv g" and ti: "turn_inv g" by (simp_all add: loop_inv_def)
  from gi assms(2) obtain g' where g': "ai_turn n g = Inr g'" "game_inv g'"
      "game_over g' \<or> player g' = 1"
    using ai_turn_result by blast
  have "turn_inv g'"
  proof (cases "game_over g \<or> player g \<noteq> 2")
    case True
    with g'(1) ti show ?thesis by (simp add: ai_turn_idle)
  next
    case False
    then have run: "\<not> game_over g" "player g = 2" by simp_all
    from gi assms(2) run obtain r c where "(r, c) \<in> set (empty_cells (board g))"
      "ai_turn n g = Inr (settle g (set_cell (board g) r c 2) 2 1)"
      by (rule ai_turn_eq)
    with g'(1) ti run gi show ?thesis by (auto simp: turn_inv_computer game_inv_wf)
  qed
  with g' show ?thesis by (auto intro: that simp: loop_inv_def)
qed

lemma loop_inv_frame:
  assumes "loop_inv g" "9 \<le> n" "frame n g es = Inr g'"
  shows "loop_inv g' \<and> (game_over g' \<or> player g' = 1)"
proof -
  from assms(3) obtain g1 where g1: "handle_events g es = Inr g1" and ai: "ai_turn n g1 = Inr g'"
    by (auto simp: frame_def bind_result_eq_Inr_iff)
  from assms(1) g1 have "loop_inv g1" by (rule loop_inv_handle_events)
  then obtain g2 where "ai_turn n g1 = Inr g2" "loop_inv g2" "game_over g2 \<or> player g2 = 1"
    using assms(2) by (rule loop_inv_ai_turn)
  with ai show ?thesis by simp
qed

lemma reachable_loop_inv:
  assumes "reachable n g" "9 \<le> n"
  shows "loop_inv g \<and> (game_over g \<or> player g = 1)"
  using assms
proof (induction rule: reachable.induct)
  case start
  show ?case by (simp add: loop_inv_init) (simp add: init_game_def)
next
  case (step g events g')
  then show ?case by (blast dest: loop_inv_frame)
qed

section \<open>Which events a frame survives\<close>

lemma handle_event_in_window:
  assumes "game_inv g" "in_window e"
  shows "\<exists>g'. handle_event g e = Inr g'"
proof (cases e)
  case (MOUSEBUTTONDOWN x y)
  with assms(2) have "0 \<le> x" "x < WIDTH" "0 \<le> y" "y < WIDTH" by (simp_all add: HEIGHT_def WIDTH_def)
  then show ?thesis
    by (simp add: MOUSEBUTTONDOWN click_eq [OF game_inv_wf [OF assms(1)]] square_of_pixel)
qed (use assms(2) in simp_all)

lemma handle_events_in_window:
  "game_inv g \<Longrightarrow> list_all in_window es \<Longrightarrow> \<exists>g'. handle_events g es = Inr g'"
proof (induction es arbitrary: g)
  case (Cons e es)
  then obtain g1 where g1: "handle_event g e = Inr g1"
    using handle_event_in_window [of g e] by auto
  with Cons.prems(1) have "game_inv g1" by (auto dest: game_inv_handle_event)
  with Cons g1 show ?case by simp
qed simp

lemma frame_in_window:
  assumes "game_inv g" "9 \<le> n" "list_all in_window es"
  shows "\<exists>g'. frame n g es = Inr g'"
proof -
  from assms(1,3) obtain g1 where g1: "handle_events g es = Inr g1"
    using handle_events_in_window by blast
  with assms(1) have "game_inv g1" by (rule game_inv_handle_events)
  with assms(2) g1 show ?thesis
    using ai_turn_result [of g1 n] by (auto simp: frame_def)
qed

lemma restart_eq: "wf_board (board g) \<Longrightarrow> restart g = init_game"
  by (simp add: restart_def init_game_def clear_board_eq)

lemma handle_events_append:
  "handle_events g (es @ es') = bind_result (handle_events g es) (\<lambda>g'. handle_events g' es')"
  by (induction es arbitrary: g) (simp_all add: bind_result_assoc)

section \<open>The properties of the loop\<close>

text \<open>C8: in every state the loop reaches, each cell holds 0, 1 or 2, and the human has as
  many marks as the computer or one more; while the game runs the numbers are equal at the end
  of a frame, the computer having answered.\<close>

theorem mark_balance:
  assumes "reachable n g" "9 \<le> n"
  shows "marks_ok (board g)
    \<and> (count_mark (board g) 1 = count_mark (board g) 2
       \<or> count_mark (board g) 1 = count_mark (board g) 2 + 1)
    \<and> (game_over g \<or> count_mark (board g) 1 = count_mark (board g) 2)"
proof -
  from reachable_loop_inv [OF assms] have "game_inv g" "turn_inv g" "game_over g \<or> player g = 1"
    by (simp_all add: loop_inv_def)
  then show ?thesis
    by (auto simp: turn_inv_def game_inv_def finished_def split: if_splits)
qed

theorem mark_balance_witness:
  "reachable 9 drawn_b \<and> (9::nat) \<le> 9 \<and> marks_ok (board drawn_b)
   \<and> count_mark (board drawn_b) 1 = count_mark (board drawn_b) 2 + 1 \<and> game_over drawn_b"
  using mark_balance [OF reachable_drawn_b] reachable_drawn_b
  by (simp add: drawn_b_def board_lit)

text \<open>C7: the flags agree with the board in every state the loop reaches: \<^verbatim>\<open>game_over\<close> is
  set exactly when a side has a line or the board is full, \<^verbatim>\<open>winner\<close> is 2 when the computer
  has a line, 0 when the board is full without one and \<^verbatim>\<open>None\<close> otherwise, and at the end of
  a frame of a running game it is the human's turn.\<close>

theorem flags_agree_with_board:
  assumes "reachable n g" "9 \<le> n"
  shows "game_over g = terminal (board g)
    \<and> winner g = (if check_win (board g) 2 then Some 2
                   else if is_board_full (board g) then Some 0 else None)
    \<and> (game_over g \<or> player g = 1)"
proof -
  from reachable_inv [OF assms] have "game_inv g" "game_over g \<or> player g = 1"
    by simp_all
  then show ?thesis
    by (auto simp: game_inv_def finished_def safe_def terminal_def split: if_splits)
qed

theorem flags_agree_with_board_witness:
  "reachable 9 won_a \<and> (9::nat) \<le> 9 \<and> game_over won_a \<and> terminal (board won_a)
   \<and> winner won_a = Some 2 \<and> check_win (board won_a) 2"
  using flags_agree_with_board [OF reachable_won_a] reachable_won_a
  by (simp add: won_a_def board_lit)

text \<open>C17: a draw is always completed by the human: when \<^verbatim>\<open>winner\<close> is 0 the board holds five
  marks of the human and four of the computer and \<^verbatim>\<open>player\<close> is still 1. The branch of the
  computer's turn that declares a draw (lines 214 to 216) is never taken.\<close>

theorem draw_by_human:
  assumes "reachable n g" "9 \<le> n" "winner g = Some 0"
  shows "player g = 1 \<and> count_mark (board g) 1 = 5 \<and> count_mark (board g) 2 = 4"
proof -
  from reachable_loop_inv [OF assms(1,2)] have gi: "game_inv g" and ti: "turn_inv g"
    by (simp_all add: loop_inv_def)
  from gi assms(3) have over: "game_over g" and wf: "wf_board (board g)"
    and full: "is_board_full (board g)"
    by (auto simp: game_inv_def finished_def split: if_splits)
  from ti over assms(3) have ok: "marks_ok (board g)" and p: "player g = 1"
    and c: "count_mark (board g) 1 = count_mark (board g) 2 + 1"
    by (simp_all add: turn_inv_def)
  from full wf have "count_mark (board g) 0 = 0" by (simp add: is_board_full_iff_count)
  with count_mark_total [OF wf ok] c p show ?thesis by simp
qed

theorem draw_by_human_witness:
  "reachable 9 drawn_b \<and> (9::nat) \<le> 9 \<and> winner drawn_b = Some 0 \<and> player drawn_b = 1
   \<and> count_mark (board drawn_b) 1 = 5 \<and> count_mark (board drawn_b) 2 = 4"
  using draw_by_human [OF reachable_drawn_b] reachable_drawn_b
  by (simp add: drawn_b_def)

text \<open>C10: from a reachable state a frame whose events are key presses, other events and
  clicks inside the window raises no exception: neither \<^verbatim>\<open>IndexError\<close> from the array nor
  \<^verbatim>\<open>RecursionError\<close> from the search, given a budget of nine nested calls.\<close>

theorem frame_survives:
  assumes "reachable n g" "9 \<le> n" "list_all in_window es"
  shows "\<exists>g'. frame n g es = Inr g' \<and> reachable n g'"
proof -
  from reachable_inv [OF assms(1,2)] have "game_inv g" by simp
  then obtain g' where "frame n g es = Inr g'"
    using assms(2,3) frame_in_window by blast
  with assms(1) show ?thesis by (auto intro: reachable.step)
qed

theorem frame_survives_witness:
  "reachable 9 won_a \<and> (9::nat) \<le> 9 \<and> list_all in_window [click_at 2 2, KEYDOWN K_r, OTHER]
   \<and> (\<exists>g'. frame 9 won_a [click_at 2 2, KEYDOWN K_r, OTHER] = Inr g' \<and> reachable 9 g')"
proof -
  have "list_all in_window [click_at 2 2, KEYDOWN K_r, OTHER]"
    by (simp add: click_at_def SQUARE_SIZE_def WIDTH_def HEIGHT_def BOARD_COLS_def)
  with frame_survives [OF reachable_won_a] reachable_won_a show ?thesis by simp
qed

text \<open>C15: a click inside the window marks the square under the pointer for the player whose
  turn it is and settles the game (a line, a full board, or the computer's turn) when the
  square is empty, and changes nothing when it is occupied.\<close>

theorem click_result:
  assumes "wf_board (board g)" "0 \<le> x" "x < WIDTH" "0 \<le> y" "y < HEIGHT"
  shows "click g x y =
    Inr (if cell (board g) (nat (y div SQUARE_SIZE)) (nat (x div SQUARE_SIZE)) = 0
         then settle g (set_cell (board g) (nat (y div SQUARE_SIZE)) (nat (x div SQUARE_SIZE))
                          (player g)) (player g) 2
         else g)"
proof -
  from assms(4,5) have "0 \<le> y" "y < WIDTH" by (simp_all add: HEIGHT_def WIDTH_def)
  with assms(1-3) show ?thesis by (simp add: click_eq square_of_pixel)
qed

theorem click_result_witness:
  "wf_board (board won_a) \<and> (0::int) \<le> 250 \<and> 250 < WIDTH \<and> (0::int) \<le> 10 \<and> 10 < HEIGHT
   \<and> click won_a 250 10 = Inr won_a"
  using click_result [of won_a 250 10]
  by (simp add: won_a_def WIDTH_def HEIGHT_def SQUARE_SIZE_def BOARD_COLS_def board_lit)

text \<open>C19: a click on the running game's board at a pixel beyond the window, to the right or
  below (or more than a window's width to the left or above), raises \<^verbatim>\<open>IndexError\<close>.\<close>

theorem click_outside_window:
  assumes "wf_board (board g)" "\<not> game_over g" "player g = 1"
    "x < - WIDTH \<or> WIDTH \<le> x \<or> y < - HEIGHT \<or> HEIGHT \<le> y"
  shows "handle_event g (MOUSEBUTTONDOWN x y) = Inl IndexError"
proof -
  from assms(4) have "np_index BOARD_ROWS (y div SQUARE_SIZE) = Inl IndexError
      \<or> np_index BOARD_COLS (x div SQUARE_SIZE) = Inl IndexError"
    by (auto simp: np_index_def WIDTH_def HEIGHT_def SQUARE_SIZE_def BOARD_COLS_def BOARD_ROWS_def)
  then have "bind_result (np_index BOARD_ROWS (y div SQUARE_SIZE)) (\<lambda>r.
      bind_result (np_index BOARD_COLS (x div SQUARE_SIZE)) (\<lambda>c. Inr (f r c))) = Inl IndexError"
    for f :: "nat \<Rightarrow> nat \<Rightarrow> game"
    by (cases "np_index BOARD_ROWS (y div SQUARE_SIZE)") (auto simp: np_index_Inl_iff np_index_out)
  with assms(1-3) show ?thesis by (simp add: click_eq)
qed

theorem click_outside_window_witness:
  "wf_board (board init_game) \<and> \<not> game_over init_game \<and> player init_game = 1
   \<and> WIDTH \<le> 600 \<and> handle_event init_game (MOUSEBUTTONDOWN 600 0) = Inl IndexError"
  using click_outside_window [of init_game 600 0]
  by (simp add: init_game_def WIDTH_def)

text \<open>C18: pressing R in a reachable state starts a new game when the game is over, the
  state being exactly the initial one, and does nothing while the game runs.\<close>

theorem restart_is_new_game:
  assumes "reachable n g" "9 \<le> n"
  shows "handle_event g (KEYDOWN K_r) = Inr (if game_over g then init_game else g)"
  using reachable_inv [OF assms] by (simp add: restart_eq game_inv_wf)

theorem restart_is_new_game_witness:
  "reachable 9 drawn_b \<and> (9::nat) \<le> 9 \<and> handle_event drawn_b (KEYDOWN K_r) = Inr init_game"
  using restart_is_new_game [OF reachable_drawn_b] reachable_drawn_b
  by (simp add: drawn_b_def)

text \<open>C20: a \<^verbatim>\<open>QUIT\<close> event ends the program with \<^verbatim>\<open>SystemExit\<close> as soon as the events before
  it in the frame have been handled; the computer does not move in that frame.\<close>

theorem quit_exits:
  assumes "handle_events g es = Inr g'"
  shows "frame n g (es @ QUIT # es') = Inl SystemExit"
  using assms by (simp add: frame_def handle_events_append)

theorem quit_exits_witness:
  "handle_events init_game [OTHER] = Inr init_game
   \<and> frame 9 init_game ([OTHER] @ QUIT # [click_at 0 0]) = Inl SystemExit"
  using quit_exits [of init_game "[OTHER]" init_game 9 "[click_at 0 0]"] by simp

end
