(* ===== verification/Display.thy ===== *)
theory Display
  imports Turn_Invariants
begin

text \<open>
  What the program draws. The pygame calls that change the window's surface are recorded as a
  list of drawing operations, in the order in which they are made: \<^verbatim>\<open>draw_lines\<close> (lines 39 to
  45), \<^verbatim>\<open>draw_figures\<close> (48 to 64), \<^verbatim>\<open>show_winner\<close> (148 to 165), the first two statements of
  \<^verbatim>\<open>reset_game\<close> (169, 170) and the end of a pass of the loop in \<^verbatim>\<open>main\<close> (220 to 225). The
  size of a rendered text depends on the font and is a parameter \<open>sz\<close> of the model; of the
  two fonts (lines 32, 33) only their identity is kept, and of the overlay surface its alpha.
  The loop with display, \<open>frame_ui\<close>, is the loop of \<open>Game\<close> with the drawing calls added;
  the lemma \<open>game_of_run_ui\<close> records that forgetting the screen gives \<open>run\<close> back.
\<close>

section \<open>Constants and drawing operations\<close>

type_synonym color = "int \<times> int \<times> int"
type_synonym point = "int \<times> int"

definition LINE_WIDTH :: int where "LINE_WIDTH = 15"
definition CIRCLE_RADIUS :: int where "CIRCLE_RADIUS = SQUARE_SIZE div 3"
definition CROSS_WIDTH :: int where "CROSS_WIDTH = 25"
definition SPACE :: int where "SPACE = SQUARE_SIZE div 4"

definition BG_COLOR :: color where "BG_COLOR = (28, 170, 156)"
definition LINE_COLOR :: color where "LINE_COLOR = (23, 145, 135)"
definition CIRCLE_COLOR :: color where "CIRCLE_COLOR = (239, 231, 200)"
definition CROSS_COLOR :: color where "CROSS_COLOR = (66, 66, 66)"
definition TEXT_COLOR :: color where "TEXT_COLOR = (255, 255, 255)"
definition WIN_COLOR :: color where "WIN_COLOR = (255, 215, 0)"

datatype font = Arial40 | Arial30

datatype draw_op =
    is_Fill: Fill color
  | is_Line: Line color point point int
  | is_Circle: Circle color point int int
  | is_Overlay: Overlay int
  | is_Text: Text font string color point
  | is_Update: Update

type_synonym screen = "draw_op list"
type_synonym text_size = "font \<Rightarrow> string \<Rightarrow> int \<times> int"

section \<open>The drawing functions\<close>

definition draw_lines :: "draw_op list" where
  "draw_lines =
     [Line LINE_COLOR (0, SQUARE_SIZE) (WIDTH, SQUARE_SIZE) LINE_WIDTH,
      Line LINE_COLOR (0, 2 * SQUARE_SIZE) (WIDTH, 2 * SQUARE_SIZE) LINE_WIDTH,
      Line LINE_COLOR (SQUARE_SIZE, 0) (SQUARE_SIZE, HEIGHT) LINE_WIDTH,
      Line LINE_COLOR (2 * SQUARE_SIZE, 0) (2 * SQUARE_SIZE, HEIGHT) LINE_WIDTH]"

definition figure :: "board \<Rightarrow> nat \<times> nat \<Rightarrow> draw_op list" where
  "figure b = (\<lambda>(row, col).
     if cell b row col = 1 then
       [Circle CIRCLE_COLOR (int col * SQUARE_SIZE + SQUARE_SIZE div 2,
                             int row * SQUARE_SIZE + SQUARE_SIZE div 2) CIRCLE_RADIUS LINE_WIDTH]
     else if cell b row col = 2 then
       [Line CROSS_COLOR (int col * SQUARE_SIZE + SPACE, int row * SQUARE_SIZE + SQUARE_SIZE - SPACE)
                         (int col * SQUARE_SIZE + SQUARE_SIZE - SPACE, int row * SQUARE_SIZE + SPACE)
                         CROSS_WIDTH,
        Line CROSS_COLOR (int col * SQUARE_SIZE + SPACE, int row * SQUARE_SIZE + SPACE)
                         (int col * SQUARE_SIZE + SQUARE_SIZE - SPACE,
                          int row * SQUARE_SIZE + SQUARE_SIZE - SPACE)
                         CROSS_WIDTH]
     else [])"

definition draw_figures :: "board \<Rightarrow> draw_op list" where
  "draw_figures b = concat (map (figure b) all_cells)"

definition winner_text :: "int option \<Rightarrow> string" where
  "winner_text w =
     (if w = Some 1 then ''You Win!''
      else if w = Some 2 then ''AI Wins!''
      else ''Draw!'')"

definition show_winner :: "text_size \<Rightarrow> int option \<Rightarrow> draw_op list" where
  "show_winner sz w =
     (let text = winner_text w;
          restart_text = ''Press R to Restart''
      in [Overlay 128,
          Text Arial40 text WIN_COLOR
            (WIDTH div 2 - fst (sz Arial40 text) div 2, HEIGHT div 2 - snd (sz Arial40 text) div 2),
          Text Arial30 restart_text TEXT_COLOR
            (WIDTH div 2 - fst (sz Arial30 restart_text) div 2, HEIGHT div 2 + 50)])"

text \<open>The two drawing statements of \<^verbatim>\<open>reset_game\<close>.\<close>

definition reset_screen :: "draw_op list" where
  "reset_screen = Fill BG_COLOR # draw_lines"

section \<open>The loop with its display\<close>

text \<open>The window when \<^verbatim>\<open>main\<close> enters its loop: filled at import, the grid drawn.\<close>

definition init_screen :: screen where
  "init_screen = Fill BG_COLOR # draw_lines"

text \<open>What handling an event draws: only the restart draws.\<close>

fun event_draws :: "game \<Rightarrow> event \<Rightarrow> draw_op list" where
  "event_draws g (KEYDOWN key) = (if key = K_r \<and> game_over g then reset_screen else [])"
| "event_draws g e = []"

fun handle_events_ui :: "game \<times> screen \<Rightarrow> event list \<Rightarrow> (game \<times> screen) result" where
  "handle_events_ui (g, scr) [] = Inr (g, scr)"
| "handle_events_ui (g, scr) (e # es) =
     bind_result (handle_event g e) (\<lambda>g'. handle_events_ui (g', scr @ event_draws g e) es)"

definition render :: "text_size \<Rightarrow> game \<Rightarrow> draw_op list" where
  "render sz g =
     draw_figures (board g) @ (if game_over g then show_winner sz (winner g) else []) @ [Update]"

definition frame_ui :: "text_size \<Rightarrow> nat \<Rightarrow> game \<times> screen \<Rightarrow> event list \<Rightarrow> (game \<times> screen) result" where
  "frame_ui sz n ui events =
     bind_result (handle_events_ui ui events) (\<lambda>(g1, scr1).
     bind_result (ai_turn n g1) (\<lambda>g2. Inr (g2, scr1 @ render sz g2)))"

fun run_ui :: "text_size \<Rightarrow> nat \<Rightarrow> game \<times> screen \<Rightarrow> event list list \<Rightarrow> (game \<times> screen) result" where
  "run_ui sz n ui [] = Inr ui"
| "run_ui sz n ui (events # frames) =
     bind_result (frame_ui sz n ui events) (\<lambda>ui'. run_ui sz n ui' frames)"

section \<open>The display does not influence the game\<close>

definition game_of :: "(game \<times> screen) result \<Rightarrow> game result" where
  "game_of res = bind_result res (\<lambda>(g, scr). Inr g)"

lemma game_of_simps [simp]:
  "game_of (Inl e) = Inl e"
  "game_of (Inr (g, scr)) = Inr g"
  by (simp_all add: game_of_def)

lemma game_of_bind:
  "game_of (bind_result x f) = bind_result x (\<lambda>y. game_of (f y))"
  by (cases x) simp_all

lemma game_of_handle_events_ui: "game_of (handle_events_ui (g, scr) es) = handle_events g es"
  by (induction es arbitrary: g scr) (simp_all add: game_of_bind)

lemma handle_events_ui_Inr:
  "handle_events_ui (g, scr) es = Inr (g', scr') \<Longrightarrow> handle_events g es = Inr g'"
  using game_of_handle_events_ui [of g scr es] by simp

lemma handle_events_ui_total:
  "handle_events g es = Inr g' \<Longrightarrow> \<exists>scr'. handle_events_ui (g, scr) es = Inr (g', scr')"
  using game_of_handle_events_ui [of g scr es]
  by (cases "handle_events_ui (g, scr) es") auto

lemma game_of_frame_ui: "game_of (frame_ui sz n (g, scr) es) = frame n g es"
proof -
  have "frame n g es = bind_result (game_of (handle_events_ui (g, scr) es)) (ai_turn n)"
    by (simp add: frame_def game_of_handle_events_ui)
  moreover have "game_of (bind_result (ai_turn n g1) (\<lambda>g2. Inr (g2, f g2))) = ai_turn n g1"
    for g1 and f :: "game \<Rightarrow> screen"
    by (cases "ai_turn n g1") simp_all
  ultimately show ?thesis
    by (cases "handle_events_ui (g, scr) es") (auto simp: frame_ui_def)
qed

lemma game_of_run_ui: "game_of (run_ui sz n (g, scr) fs) = run n g fs"
proof (induction fs arbitrary: g scr)
  case Nil
  show ?case by simp
next
  case (Cons es fs)
  have "run n g (es # fs) = bind_result (game_of (frame_ui sz n (g, scr) es)) (\<lambda>g'. run n g' fs)"
    by (simp add: game_of_frame_ui)
  with Cons.IH show ?case
    by (cases "frame_ui sz n (g, scr) es") auto
qed

section \<open>Where the figures are drawn\<close>

text \<open>The corner points of a drawing operation: the ends of a line, the box around a circle.\<close>

fun op_points :: "draw_op \<Rightarrow> point list" where
  "op_points (Line col p q w) = [p, q]"
| "op_points (Circle col (x, y) r w) = [(x - r, y - r), (x + r, y + r)]"
| "op_points op = []"

definition in_box :: "point \<Rightarrow> point \<Rightarrow> point \<Rightarrow> bool" where
  "in_box lo hi p \<longleftrightarrow> fst lo \<le> fst p \<and> fst p \<le> fst hi \<and> snd lo \<le> snd p \<and> snd p \<le> snd hi"

definition ops_in_box :: "point \<Rightarrow> point \<Rightarrow> draw_op list \<Rightarrow> bool" where
  "ops_in_box lo hi ops = list_all (\<lambda>op. list_all (in_box lo hi) (op_points op)) ops"

lemma ops_in_box_simps [simp]:
  "ops_in_box lo hi []"
  "ops_in_box lo hi (op # ops) \<longleftrightarrow> list_all (in_box lo hi) (op_points op) \<and> ops_in_box lo hi ops"
  "ops_in_box lo hi (ops @ ops') \<longleftrightarrow> ops_in_box lo hi ops \<and> ops_in_box lo hi ops'"
  by (simp_all add: ops_in_box_def)

lemma ops_in_box_concat:
  "ops_in_box lo hi (concat xss) \<longleftrightarrow> list_all (ops_in_box lo hi) xss"
  by (induction xss) simp_all

lemma ops_in_box_mono:
  assumes "ops_in_box lo hi ops" "fst lo' \<le> fst lo" "snd lo' \<le> snd lo" "fst hi \<le> fst hi'"
    "snd hi \<le> snd hi'"
  shows "ops_in_box lo' hi' ops"
  using assms unfolding ops_in_box_def in_box_def list_all_iff by fastforce

lemmas geometry_defs =
  SQUARE_SIZE_def WIDTH_def HEIGHT_def BOARD_COLS_def BOARD_ROWS_def CIRCLE_RADIUS_def SPACE_def

lemma figure_in_box:
  "ops_in_box (int col * SQUARE_SIZE, int row * SQUARE_SIZE)
     (int col * SQUARE_SIZE + SQUARE_SIZE, int row * SQUARE_SIZE + SQUARE_SIZE) (figure b (row, col))"
  by (simp add: figure_def in_box_def geometry_defs)

text \<open>C27: the figure of a cell lies in the cell's square of the window: the ends of the two
  strokes of a cross and the box around a circle are inside it, whatever the cell holds.\<close>

theorem figure_in_square:
  assumes "row < BOARD_ROWS" "col < BOARD_COLS"
  shows "ops_in_box (int col * SQUARE_SIZE, int row * SQUARE_SIZE)
           (int col * SQUARE_SIZE + SQUARE_SIZE, int row * SQUARE_SIZE + SQUARE_SIZE)
           (figure b (row, col))
    \<and> ops_in_box (0, 0) (WIDTH, HEIGHT) (figure b (row, col))"
proof -
  from assms have "int col * SQUARE_SIZE + SQUARE_SIZE \<le> WIDTH"
    "int row * SQUARE_SIZE + SQUARE_SIZE \<le> HEIGHT"
    by (simp_all add: geometry_defs)
  with figure_in_box [of col row b] show ?thesis
    by (auto intro: ops_in_box_mono simp: SQUARE_SIZE_def WIDTH_def BOARD_COLS_def)
qed

theorem figure_in_square_witness:
  "(1::nat) < BOARD_ROWS \<and> (2::nat) < BOARD_COLS
   \<and> figure (board won_a) (1, 2) =
       [Line CROSS_COLOR (450, 350) (550, 250) 25, Line CROSS_COLOR (450, 250) (550, 350) 25]
   \<and> ops_in_box (400, 200) (600, 400) (figure (board won_a) (1, 2))
   \<and> ops_in_box (0, 0) (WIDTH, HEIGHT) (figure (board won_a) (1, 2))"
  using figure_in_square [of 1 2 "board won_a"]
  by (simp add: won_a_def figure_def board_lit geometry_defs CROSS_WIDTH_def)

lemma figure_points:
  assumes "op \<in> set (figure b (row, col))" "(x, y) \<in> set (op_points op)"
  shows "y div SQUARE_SIZE = int row \<and> x div SQUARE_SIZE = int col \<and> cell b row col \<noteq> 0"
  using assms
  by (auto simp: figure_def geometry_defs split: if_splits)

text \<open>C26: drawing and clicking agree on where a cell is: every corner point of the figure
  drawn for a cell is mapped back to that cell by the division the click handler uses, and
  the cell is occupied, so that a click on a figure changes nothing.\<close>

theorem click_on_figure:
  assumes "wf_board (board g)" "row < BOARD_ROWS" "col < BOARD_COLS"
    "op \<in> set (figure (board g) (row, col))" "(x, y) \<in> set (op_points op)"
  shows "y div SQUARE_SIZE = int row \<and> x div SQUARE_SIZE = int col \<and> click g x y = Inr g"
proof -
  from figure_points [OF assms(4,5)]
  have px: "y div SQUARE_SIZE = int row" "x div SQUARE_SIZE = int col"
    and occ: "cell (board g) row col \<noteq> 0"
    by simp_all
  with assms(1-3) show ?thesis by (simp add: click_eq)
qed

theorem click_on_figure_witness:
  "wf_board (board won_a) \<and> (1::nat) < BOARD_ROWS \<and> (2::nat) < BOARD_COLS
   \<and> Line CROSS_COLOR (450, 350) (550, 250) 25 \<in> set (figure (board won_a) (1, 2))
   \<and> (550, 250) \<in> set (op_points (Line CROSS_COLOR (450, 350) (550, 250) 25))
   \<and> 250 div SQUARE_SIZE = 1 \<and> 550 div SQUARE_SIZE = 2 \<and> click won_a 550 250 = Inr won_a"
  using click_on_figure [of won_a 1 2 "Line CROSS_COLOR (450, 350) (550, 250) 25" 550 250]
  by (simp add: won_a_def figure_def board_lit geometry_defs CROSS_WIDTH_def)

section \<open>One figure for every mark\<close>

lemma filter_figure:
  "length (filter is_Circle (figure b (row, col))) = (if cell b row col = 1 then 1 else 0)"
  "length (filter is_Line (figure b (row, col))) = (if cell b row col = 2 then 2 else 0)"
  by (simp_all add: figure_def)

text \<open>C28: \<^verbatim>\<open>draw_figures\<close> draws one circle for every 1 on the board and two strokes for every
  2, and nothing else.\<close>

theorem draw_figures_counts:
  assumes "wf_board b"
  shows "length (filter is_Circle (draw_figures b)) = count_mark b 1
    \<and> length (filter is_Line (draw_figures b)) = 2 * count_mark b 2
    \<and> list_all (\<lambda>op. is_Circle op \<or> is_Line op) (draw_figures b)"
proof -
  from assms obtain a0 a1 a2 b0 b1 b2 c0 c1 c2
    where b: "b = [[a0, a1, a2], [b0, b1, b2], [c0, c1, c2]]" by (rule wf_board_cases)
  have "list_all (\<lambda>op. is_Circle op \<or> is_Line op) (figure b rc)" for rc
    by (cases rc) (simp add: figure_def)
  then have "list_all (\<lambda>op. is_Circle op \<or> is_Line op) (draw_figures b)"
    by (simp add: draw_figures_def list_all_iff)
  moreover have "length (filter is_Circle (draw_figures b)) = count_mark b 1"
    unfolding b draw_figures_def all_cells_eq
    by (simp add: filter_figure cell_lit count_mark_lit del: One_nat_def)
  moreover have "length (filter is_Line (draw_figures b)) = 2 * count_mark b 2"
    unfolding b draw_figures_def all_cells_eq
    by (simp add: filter_figure cell_lit count_mark_lit del: One_nat_def)
  ultimately show ?thesis by simp
qed

theorem draw_figures_counts_witness:
  "wf_board (board drawn_b)
   \<and> length (filter is_Circle (draw_figures (board drawn_b))) = 5
   \<and> length (filter is_Line (draw_figures (board drawn_b))) = 8"
  using draw_figures_counts [of "board drawn_b"]
  by (simp add: drawn_b_def count_mark_lit)

section \<open>The message at the end of a game\<close>

fun text_of :: "draw_op \<Rightarrow> string list" where
  "text_of (Text f s col p) = [s]"
| "text_of op = []"

definition texts :: "screen \<Rightarrow> string list" where
  "texts scr = concat (map text_of scr)"

text \<open>A size for every text, for running the model on concrete input.\<close>

definition fixed_size :: text_size where
  "fixed_size f s = (20 * int (length s), 40)"

lemma texts_simps [simp]:
  "texts [] = []"
  "texts (op # ops) = text_of op @ texts ops"
  "texts (ops @ ops') = texts ops @ texts ops'"
  by (simp_all add: texts_def)

lemma texts_draw_lines [simp]: "texts draw_lines = []"
  by (simp add: draw_lines_def)

lemma texts_event_draws [simp]: "texts (event_draws g e) = []"
  by (cases e) (simp_all add: reset_screen_def)

lemma texts_draw_figures [simp]: "texts (draw_figures b) = []"
proof -
  have "texts (figure b rc) = []" for rc by (cases rc) (simp add: figure_def)
  then show ?thesis by (simp add: draw_figures_def texts_def)
qed

lemma texts_render:
  "texts (render sz g) =
     (if game_over g then [winner_text (winner g), ''Press R to Restart''] else [])"
  by (simp add: render_def show_winner_def Let_def)

lemma handle_events_ui_texts:
  "handle_events_ui (g, scr) es = Inr (g', scr') \<Longrightarrow> texts scr' = texts scr"
  by (induction es arbitrary: g scr) (auto simp: bind_result_eq_Inr_iff)

lemma frame_ui_Inr:
  assumes "frame_ui sz n (g, scr) es = Inr (g', scr')"
  obtains scr1 where "frame n g es = Inr g'" "scr' = scr1 @ render sz g'" "texts scr1 = texts scr"
proof -
  from assms obtain g1 scr1 where ev: "handle_events_ui (g, scr) es = Inr (g1, scr1)"
    and ai: "ai_turn n g1 = Inr g'" and scr': "scr' = scr1 @ render sz g'"
    by (auto simp: frame_ui_def bind_result_eq_Inr_iff)
  from ev ai have "frame n g es = Inr g'"
    by (simp add: frame_def handle_events_ui_Inr)
  then show ?thesis using scr' handle_events_ui_texts [OF ev] by (rule that)
qed

lemma run_ui_total:
  "run n g fs = Inr g' \<Longrightarrow> \<exists>scr'. run_ui sz n (g, scr) fs = Inr (g', scr')"
  using game_of_run_ui [of sz n g scr fs]
  by (cases "run_ui sz n (g, scr) fs") auto

lemma winner_text_finished:
  assumes "game_inv g" "game_over g"
  shows "winner_text (winner g) = (if check_win (board g) 2 then ''AI Wins!'' else ''Draw!'')"
  using assms by (auto simp: game_inv_def finished_def winner_text_def)

text \<open>C24: when the game is over in a reachable state, the message \<^verbatim>\<open>show_winner\<close> writes is
  the one the board calls for: \<^verbatim>\<open>AI Wins!\<close> when the computer has a line, \<^verbatim>\<open>Draw!\<close> otherwise.\<close>

theorem message_agrees_with_board:
  assumes "reachable n g" "9 \<le> n" "game_over g"
  shows "texts (show_winner sz (winner g)) =
    [if check_win (board g) 2 then ''AI Wins!'' else ''Draw!'', ''Press R to Restart'']"
  using reachable_inv [OF assms(1,2)] assms(3)
  by (simp add: show_winner_def Let_def winner_text_finished)

theorem message_agrees_with_board_witness:
  "reachable 9 drawn_b \<and> (9::nat) \<le> 9 \<and> game_over drawn_b
   \<and> texts (show_winner fixed_size (winner drawn_b)) = [''Draw!'', ''Press R to Restart'']"
  using message_agrees_with_board [OF reachable_drawn_b, of fixed_size] reachable_drawn_b
  by (simp add: drawn_b_def board_lit)

lemma run_ui_texts:
  assumes "reachable n g" "9 \<le> n" "''You Win!'' \<notin> set (texts scr)"
  shows "run_ui sz n (g, scr) fs = Inr (g', scr') \<Longrightarrow> ''You Win!'' \<notin> set (texts scr')"
  using assms(1,3)
proof (induction fs arbitrary: g scr)
  case Nil
  then show ?case by simp
next
  case (Cons es fs)
  from Cons.prems(1) obtain g1 scr1 where fr: "frame_ui sz n (g, scr) es = Inr (g1, scr1)"
    and rest: "run_ui sz n (g1, scr1) fs = Inr (g', scr')"
    by (auto simp: bind_result_eq_Inr_iff)
  from fr obtain scr0 where g1: "frame n g es = Inr g1" and scr1: "scr1 = scr0 @ render sz g1"
    and scr0: "texts scr0 = texts scr"
    by (rule frame_ui_Inr)
  from Cons.prems(2) g1 have reach: "reachable n g1" by (rule reachable.step)
  from reachable_inv [OF reach assms(2)] have "winner_text (winner g1) \<noteq> ''You Win!''"
    by (auto simp: winner_text_def dest: game_inv_no_human_win)
  with scr1 scr0 Cons.prems(3) have "''You Win!'' \<notin> set (texts scr1)"
    by (simp add: texts_render)
  with rest reach show ?case by (rule Cons.IH)
qed

text \<open>C12: whatever the human does, the message \<^verbatim>\<open>You Win!\<close> never appears in the window.\<close>

theorem you_win_never_shown:
  assumes "run_ui sz n (init_game, init_screen) fs = Inr (g, scr)" "9 \<le> n"
  shows "''You Win!'' \<notin> set (texts scr)"
proof -
  have "''You Win!'' \<notin> set (texts init_screen)" by (simp add: init_screen_def)
  with reachable.start assms(2) show ?thesis using assms(1) by (rule run_ui_texts)
qed

theorem you_win_never_shown_witness:
  "\<exists>scr. run_ui fixed_size 9 (init_game, init_screen) game_a = Inr (won_a, scr) \<and> (9::nat) \<le> 9
     \<and> ''You Win!'' \<notin> set (texts scr)"
proof -
  from run_game_a obtain scr where "run_ui fixed_size 9 (init_game, init_screen) game_a = Inr (won_a, scr)"
    using run_ui_total by blast
  with you_win_never_shown [of fixed_size 9 game_a won_a scr] show ?thesis by auto
qed

section \<open>The overlay\<close>

text \<open>The overlays blitted since the window was last filled.\<close>

definition overlays_since_fill :: "screen \<Rightarrow> nat" where
  "overlays_since_fill scr =
     length (filter is_Overlay (takeWhile (\<lambda>op. \<not> is_Fill op) (rev scr)))"

text \<open>Events that neither close the window nor restart the game.\<close>

definition idle :: "event \<Rightarrow> bool" where
  "idle e \<longleftrightarrow> e \<noteq> QUIT \<and> e \<noteq> KEYDOWN K_r"

lemma overlays_since_fill_append:
  assumes "list_all (\<lambda>op. \<not> is_Fill op) ops"
  shows "overlays_since_fill (scr @ ops) = overlays_since_fill scr + length (filter is_Overlay ops)"
proof -
  from assms have "takeWhile (\<lambda>op. \<not> is_Fill op) (rev ops @ rev scr)
      = rev ops @ takeWhile (\<lambda>op. \<not> is_Fill op) (rev scr)"
    by (intro takeWhile_append2) (simp add: list_all_iff)
  moreover have "length (filter is_Overlay (rev ops)) = length (filter is_Overlay ops)"
    by (simp add: rev_filter [symmetric])
  ultimately show ?thesis by (simp add: overlays_since_fill_def)
qed

lemma render_no_fill: "list_all (\<lambda>op. \<not> is_Fill op) (render sz g)"
proof -
  have "list_all (\<lambda>op. \<not> is_Fill op) (figure b rc)" for b rc
    by (cases rc) (simp add: figure_def)
  then show ?thesis
    by (auto simp: render_def draw_figures_def show_winner_def Let_def list_all_iff)
qed

lemma render_overlays:
  "length (filter is_Overlay (render sz g)) = (if game_over g then 1 else 0)"
proof -
  have "filter is_Overlay (figure b rc) = []" for b rc
    by (cases rc) (simp add: figure_def)
  then have "filter is_Overlay (draw_figures b) = []" for b
    by (simp add: draw_figures_def filter_concat)
  then show ?thesis by (simp add: render_def show_winner_def Let_def)
qed

lemma handle_events_ui_idle:
  "game_over g \<Longrightarrow> list_all idle es \<Longrightarrow> handle_events_ui (g, scr) es = Inr (g, scr)"
proof (induction es)
  case (Cons e es)
  then show ?case by (cases e) (auto simp: idle_def)
qed simp

lemma frame_ui_idle:
  "game_over g \<Longrightarrow> list_all idle es \<Longrightarrow> frame_ui sz n (g, scr) es = Inr (g, scr @ render sz g)"
  by (simp add: frame_ui_def handle_events_ui_idle ai_turn_idle)

text \<open>C25: while the game is over and is not restarted, every pass of the loop blits one more
  half-transparent overlay on a window that is not filled in between: after \<open>k\<close> passes \<open>k\<close>
  overlays lie on top of each other over the background and the grid.\<close>

theorem overlay_accumulates:
  assumes "game_over g" "list_all (list_all idle) fs"
  shows "\<exists>scr'. run_ui sz n (g, scr) fs = Inr (g, scr')
    \<and> overlays_since_fill scr' = overlays_since_fill scr + length fs"
  using assms(2)
proof (induction fs arbitrary: scr)
  case Nil
  show ?case by simp
next
  case (Cons es fs)
  then obtain scr' where "run_ui sz n (g, scr @ render sz g) fs = Inr (g, scr')"
    "overlays_since_fill scr' = overlays_since_fill (scr @ render sz g) + length fs"
    by fastforce
  with assms(1) Cons.prems show ?case
    by (simp add: frame_ui_idle overlays_since_fill_append render_no_fill render_overlays)
qed

theorem overlay_accumulates_witness:
  "game_over won_a \<and> list_all (list_all idle) [[], [click_at 0 0], [OTHER, KEYDOWN 32]]
   \<and> (\<exists>scr'. run_ui fixed_size 9 (won_a, init_screen) [[], [click_at 0 0], [OTHER, KEYDOWN 32]]
          = Inr (won_a, scr') \<and> overlays_since_fill scr' = 3)"
proof -
  have hyps: "game_over won_a" "list_all (list_all idle) [[], [click_at 0 0], [OTHER, KEYDOWN 32]]"
    by (simp_all add: won_a_def idle_def click_at_def K_r_def)
  have "overlays_since_fill init_screen = 0"
    by (simp add: overlays_since_fill_def init_screen_def draw_lines_def)
  moreover from overlay_accumulates [OF hyps, of fixed_size 9 init_screen] obtain scr'
    where "run_ui fixed_size 9 (won_a, init_screen) [[], [click_at 0 0], [OTHER, KEYDOWN 32]]
             = Inr (won_a, scr')"
      and "overlays_since_fill scr' = overlays_since_fill init_screen
             + length [[], [click_at 0 0], [OTHER, KEYDOWN 32]]"
    by blast
  ultimately show ?thesis using hyps by auto
qed

end
