(* ===== verification/Spec2Isabelle.thy ===== *)
theory Spec2Isabelle
  imports Display
begin

text \<open>
  \<^bold>\<open>Unbeatable Tic-Tac-Toe: a verification development for \<^verbatim>\<open>src/project_mini.py\<close>.\<close>

  \<^bold>\<open>The program.\<close> A pygame front end around three parts that share one global 3x3 numpy
  array \<^verbatim>\<open>board\<close> (\<^verbatim>\<open>0\<close> empty, \<^verbatim>\<open>1\<close> the human's O, \<^verbatim>\<open>2\<close> the computer's X):
  \<^item> the board operations \<^verbatim>\<open>mark_square\<close>, \<^verbatim>\<open>available_square\<close>, \<^verbatim>\<open>is_board_full\<close>,
    \<^verbatim>\<open>check_win\<close> and the clearing loop of \<^verbatim>\<open>reset_game\<close>;
  \<^item> the search: \<^verbatim>\<open>minimax\<close> places a mark in the shared array, calls itself for the
    other side and writes \<^verbatim>\<open>0\<close> back, for every empty cell in row-major order;
    \<^verbatim>\<open>best_move\<close> runs it once per empty cell and marks the first cell with the greatest
    score;
  \<^item> the turn controller: the \<^verbatim>\<open>while True\<close> loop of \<^verbatim>\<open>main\<close> with its locals
    \<^verbatim>\<open>player\<close>, \<^verbatim>\<open>game_over\<close>, \<^verbatim>\<open>winner\<close>. Each pass handles the pending pygame events
    (quit, the R key, a mouse click of the human) and then lets the computer answer.
  Drawing (\<^verbatim>\<open>draw_lines\<close>, \<^verbatim>\<open>draw_figures\<close>, \<^verbatim>\<open>show_winner\<close>) only reads that state and
  writes to the window's surface.

  \<^bold>\<open>How the model is built.\<close> The global array is passed explicitly: every operation takes
  the board and every writing operation returns the new one. Python's exceptions are values:
  a fallible operation returns \<open>error + 'a\<close> (\<open>Inl\<close> the exception), combined with
  \<open>bind_result\<close>. The nested loops over \<^verbatim>\<open>range(BOARD_ROWS)\<close> and \<^verbatim>\<open>range(BOARD_COLS)\<close>
  are one recursion over \<open>all_cells\<close>, the nine cells in row-major order. Python integers are
  \<open>int\<close>; the floats numpy stores are the integers \<open>0\<close>, \<open>1\<close>, \<open>2\<close> and are modelled as such.

  \<^bold>\<open>What is assumed about the libraries.\<close> Three things of the model are not lines of the
  source but the behaviour of what the source runs on. \<open>np_index\<close> is numpy's rule for an
  integer index of an axis of length \<open>n\<close>: \<open>0 \<le> i < n\<close> selects \<open>i\<close>, \<open>-n \<le> i < 0\<close> selects
  \<open>i + n\<close>, everything else raises \<^verbatim>\<open>IndexError\<close>; it is applied where the source indexes the
  array with integers from outside (lines 68 and 72). \<open>cell\<close> and \<open>set_cell\<close> are the read
  and the write at indices inside the array; they are total on \<open>nat\<close>, and the model uses
  them only with the loop indices \<open>0..2\<close> or behind \<open>np_index\<close>, where numpy does not raise.
  The call budget of \<open>minimax\<close> stands for CPython's recursion limit (see below). Item
  assignment does not change the shape of a numpy array; \<open>wf_board\<close> states that shape.

  \<^bold>\<open>Theories\<close>, in import order.
  \<^item> \<open>TTT_Prelude\<close>: the exceptions (\<open>IndexError\<close>, \<open>RecursionError\<close>, \<open>SystemExit\<close>), the type
    \<open>'a result\<close> and \<open>bind_result\<close>, the lemma collections \<open>board_defs\<close>, \<open>board_lit\<close> and
    \<open>wf_intros\<close>, and the generic facts on nested list update and on \<open>fold max\<close> and
    \<open>fold min\<close>, which are what the loops' running best scores compute.
  \<^item> \<open>Score\<close>: the scores of the search, integers extended by \<^verbatim>\<open>-np.inf\<close> and
    \<^verbatim>\<open>np.inf\<close>, as an instance of \<open>linorder\<close>, so that \<open>max\<close>, \<open>min\<close> and \<open><\<close> are Python's.
  \<^item> \<open>Board\<close> (lines 10 to 13, 36, 66 to 97, 171 to 173): \<open>cell\<close> and \<open>set_cell\<close> are
    \<^verbatim>\<open>board[row][col]\<close> read and written with indices inside the array; \<open>np_index\<close> is
    numpy's rule for an arbitrary integer index; \<open>mark_square\<close>, \<open>available_square\<close>,
    \<open>is_board_full\<close>, \<open>check_win\<close>, \<open>clear_board\<close> translate the functions. \<open>wf_board\<close> is
    the 3x3 shape. Lemmas: every operation keeps the shape; read-after-write;
    place-then-retract is the identity; the exact indices \<open>mark_square\<close> accepts;
    \<open>check_win\<close> as a test of the eight \<open>win_lines\<close>; how one write changes the winning lines
    and the counts of marks.
  \<^item> \<open>Minimax\<close> (lines 99 to 127): \<open>minimax\<close>, \<open>minimax_max\<close>, \<open>minimax_min\<close> are the
    function and its two loops, the board threaded through in the order of the code and
    returned with the score. \<open>minimax_value\<close> is the specification, the value of a position
    under best play, a total function by the number of empty cells. Lemmas: with enough
    budget the code returns exactly \<open>minimax_value\<close> and the unchanged board
    (\<open>minimax_correct\<close>); for every budget a returning call has restored the board
    (\<open>minimax_restores\<close>); the value is one of \<open>-1\<close>, \<open>0\<close>, \<open>1\<close>; the mover's value is the
    best value among the children; the \<^verbatim>\<open>depth\<close> argument is irrelevant.
  \<^item> \<open>Best_Move\<close> (lines 129 to 145): \<open>best_move_loop\<close> and \<open>best_move\<close>, with the sentinel
    \<^verbatim>\<open>(-1, -1)\<close> kept. \<open>best_cell\<close> is the specification of the choice (\<open>scan_best\<close>: the
    first cell whose value is strictly greater than all before it). Lemmas: the code marks
    \<open>best_cell\<close>; that cell is empty and has the value of the position; on a full board
    nothing is marked.
  \<^item> \<open>Game_Value\<close>: \<open>value_ge\<close> and \<open>value_le\<close>, searches that decide a bound on
    \<open>minimax_value\<close> and stop at the first child that settles it, and \<open>best_cert\<close>, which
    checks with them that a given cell is the first maximum of \<^verbatim>\<open>best_move\<close>'s scan. They are
    proof devices, not part of the program: sound against \<open>minimax_value\<close> and \<open>best_cell\<close>,
    and small enough to be evaluated by rewriting. They give the value \<open>0\<close> of the empty
    board and the computer's move in concrete positions.
  \<^item> \<open>Game\<close> (lines 176 to 225): the record \<open>game\<close>, the events, \<open>click\<close>, \<open>restart\<close>,
    \<open>handle_event\<close>, \<open>handle_events\<close>, \<open>ai_turn\<close>, \<open>frame\<close> (one pass of the loop), \<open>run\<close>,
    and \<open>reachable\<close>, the states at the end of a pass. \<open>game_inv\<close> says that a running game
    is at a position where nobody has won and the computer does not lose under best play,
    and that a finished game was won by the computer or drawn; every handler keeps it.
  \<^item> \<open>Sample_Games\<close>: two games played through \<open>run\<close>, click by click, one won by the
    computer and one drawn, with the restart after it; in the first the computer passes up
    an immediate win. Their states are the concrete reachable states of the witnesses.
  \<^item> \<open>Turn_Invariants\<close>: \<open>settle\<close>, the cascade after a placement (lines 200 to 207 and 211
    to 218), and \<open>click\<close> and \<open>ai_turn\<close> in closed form; \<open>turn_inv\<close>, the balance of the marks;
    \<open>loop_inv\<close>, kept by every frame. Theorems: the flags \<^verbatim>\<open>game_over\<close> and \<^verbatim>\<open>winner\<close> agree
    with the board; the human has as many marks as the computer or one more; a draw is
    completed by the human; a frame of events from inside the window raises nothing; a click
    outside raises \<^verbatim>\<open>IndexError\<close>; \<^verbatim>\<open>QUIT\<close> exits; R after the end gives the initial state.
  \<^item> \<open>Display\<close> (lines 11 to 24, 39 to 64, 148 to 170, 220 to 225): the window as the list
    of drawing operations made on it (\<open>draw_op\<close>: fill, line, circle, overlay, text, update);
    \<open>draw_lines\<close>, \<open>figure\<close> and \<open>draw_figures\<close>, \<open>winner_text\<close> and \<open>show_winner\<close>,
    \<open>reset_screen\<close>; \<open>frame_ui\<close> and \<open>run_ui\<close>, the loop with its display, built on the
    handlers of \<open>Game\<close>. Theorems: each figure lies in its square, and a click on one of
    its corner points is a click on its (occupied) cell; one circle per 1 and two strokes per
    2; the message is the one the board calls for and is never \<^verbatim>\<open>You Win!\<close>; the overlays of
    \<^verbatim>\<open>show_winner\<close> pile up, one per pass, while a finished game is not restarted.
  \<^item> \<open>Spec2Isabelle\<close> (this theory): the property that spans all components,
    \<open>unbeatable\<close>.

  \<^bold>\<open>The call budget.\<close> \<open>minimax\<close> and \<open>best_move\<close> take a number \<open>n\<close>, the depth of nested
  calls of \<^verbatim>\<open>minimax\<close> that is available; a call with budget \<open>0\<close> is \<^verbatim>\<open>RecursionError\<close>,
  what CPython raises at its recursion limit. A call consumes one unit per level, and a
  position with \<open>k\<close> empty cells needs at most \<open>k + 1\<close> levels, so that a budget above
  \<open>num_empty b\<close> is enough (\<open>minimax_correct\<close>); \<open>num_empty b \<le> 9\<close>, hence 10 is enough for
  \<open>minimax\<close> and 9 for \<open>best_move\<close> on every 3x3 board. CPython's limit is 1000. The theorems
  about \<open>frame\<close> and \<open>reachable\<close> assume \<open>9 \<le> n\<close>. The bound searches of \<open>Game_Value\<close> have
  a budget of their own, fixed at 10 where they are evaluated.

  \<^bold>\<open>Not modelled.\<close> pygame itself: opening the window (lines 7, 27, 28), what loading a
  font does (of lines 32 and 33 only the two fonts' identities are kept, as \<open>Arial40\<close> and
  \<open>Arial30\<close>), the pixels a drawing operation produces, and the size of a rendered text, which
  is a parameter of \<open>show_winner\<close>. The event queue is an input: a pass of the loop takes the
  list of events that \<^verbatim>\<open>pygame.event.get()\<close> returned. \<open>reachable\<close> holds the states at the
  end of a pass; the states between two events of a pass are covered by the lemmas on
  \<open>handle_events\<close>, not by \<open>reachable\<close>. The interface of section 6 of the
  specification (\<^verbatim>\<open>newGame\<close>, \<^verbatim>\<open>place\<close>, \<^verbatim>\<open>status\<close>, \<^verbatim>\<open>computerMove\<close>) has no counterpart in the
  source and is not modelled; what it promises is stated of the code's own functions.
\<close>

section \<open>The computer never loses\<close>

text \<open>C1: in every state the program reaches from its start, through any sequence of
  frames with any events (clicks anywhere, restarts), the human has not won: \<^verbatim>\<open>winner\<close> is
  never \<^verbatim>\<open>1\<close> and the board never holds three human marks in a line.\<close>

theorem unbeatable:
  assumes "reachable n g" "9 \<le> n"
  shows "winner g \<noteq> Some 1 \<and> \<not> check_win (board g) 1"
  using reachable_inv [OF assms] by (simp add: game_inv_no_human_win)

text \<open>A frame in which the human clicks the centre square of the empty board.\<close>

definition centre_click :: event where
  "centre_click = MOUSEBUTTONDOWN 300 300"

lemma handle_centre_click:
  "handle_events init_game [centre_click] =
     Inr (init_game\<lparr>board := [[0, 0, 0], [0, 1, 0], [0, 0, 0]], player := 2\<rparr>)"
  by (simp add: centre_click_def init_game_def click_def SQUARE_SIZE_def WIDTH_def BOARD_COLS_def
        available_square_def mark_square_def np_index_def init_board_eq board_lit)

theorem unbeatable_witness:
  "\<exists>g. frame 9 init_game [centre_click] = Inr g \<and> reachable 9 g \<and> (9::nat) \<le> 9
     \<and> winner g \<noteq> Some 1 \<and> \<not> check_win (board g) 1"
proof -
  have "game_inv (init_game\<lparr>board := [[0, 0, 0], [0, 1, 0], [0, 0, 0]], player := 2\<rparr>)"
    using game_inv_handle_events [OF game_inv_init handle_centre_click] .
  then obtain g where
    "ai_turn 9 (init_game\<lparr>board := [[0, 0, 0], [0, 1, 0], [0, 0, 0]], player := 2\<rparr>) = Inr g"
    using ai_turn_result [of _ 9] by blast
  then have g: "frame 9 init_game [centre_click] = Inr g"
    unfolding frame_def handle_centre_click by simp
  then have "reachable 9 g" by (rule reachable.step [OF reachable.start])
  with unbeatable [of 9 g] g show ?thesis by auto
qed

end
